theory Spec2Isabelle
  imports Main "HOL-Library.Multiset"
begin

section \<open>Python strings and the standard library\<close>

text \<open>
  The program is \<^verbatim>\<open>fetch_og_from_sitemap.py\<close>. A Python \<^verbatim>\<open>str\<close> is modelled as a
  \<^typ>\<open>string\<close>, one \<^typ>\<open>char\<close> for each code point; \<^typ>\<open>char\<close> has 256 values, so the
  model covers text whose code points lie below 256, and on that range the character
  classes below are the ones of CPython 3.11 (\<^verbatim>\<open>str.isspace\<close>, the regular expression
  class \<^verbatim>\<open>\s\<close>, \<^verbatim>\<open>str.lower\<close>). A \<^verbatim>\<open>bytes\<close> value is a \<^typ>\<open>string\<close> too, one
  \<^typ>\<open>char\<close> for each byte.

  Functions of the standard library that the program calls and that are written out
  here follow \<^verbatim>\<open>urllib/parse.py\<close> of CPython 3.11.10. Those that are not written out are
  fields of the record \<open>stdlib\<close>, which every function of the program takes as its first
  argument; the theorems hold for every value of them.
\<close>

record stdlib =
  decode_utf8_replace :: "string \<Rightarrow> string"
    \<comment> \<open>\<^verbatim>\<open>bytes.decode('utf-8', errors='replace')\<close>; it never raises\<close>
  replace_charrefs :: "string \<Rightarrow> string"
    \<comment> \<open>\<^verbatim>\<open>_charref.sub(_replace_charref, s)\<close> of \<^verbatim>\<open>html.unescape\<close>\<close>
  urljoin :: "string \<Rightarrow> string \<Rightarrow> string option"
    \<comment> \<open>\<^verbatim>\<open>urllib.parse.urljoin\<close>; \<open>None\<close> when it raises \<^verbatim>\<open>ValueError\<close>\<close>
  check_bracketed_host :: "string \<Rightarrow> bool"
    \<comment> \<open>\<^verbatim>\<open>_check_bracketed_host\<close> returns (True) or raises \<^verbatim>\<open>ValueError\<close> (False)\<close>
  nfkc_netloc_ok :: "string \<Rightarrow> bool"
    \<comment> \<open>the NFKC part of \<^verbatim>\<open>_checknetloc\<close>, reached for a non-ASCII netloc only\<close>

subsection \<open>Character classes\<close>

definition whitespace :: "char list" where
  "whitespace = [CHR 0x09, CHR 0x0A, CHR 0x0B, CHR 0x0C, CHR 0x0D,
     CHR 0x1C, CHR 0x1D, CHR 0x1E, CHR 0x1F, CHR 0x20, CHR 0x85, CHR 0xA0]"

definition is_space :: "char \<Rightarrow> bool" where
  "is_space c = (c \<in> set whitespace)"

definition ascii_upper :: "char list" where
  "ascii_upper = ''ABCDEFGHIJKLMNOPQRSTUVWXYZ''"

definition ascii_lower :: "char list" where
  "ascii_lower = ''abcdefghijklmnopqrstuvwxyz''"

definition latin1_upper :: "char list" where
  "latin1_upper = [CHR 0xC0, CHR 0xC1, CHR 0xC2, CHR 0xC3, CHR 0xC4, CHR 0xC5, CHR 0xC6,
     CHR 0xC7, CHR 0xC8, CHR 0xC9, CHR 0xCA, CHR 0xCB, CHR 0xCC, CHR 0xCD, CHR 0xCE,
     CHR 0xCF, CHR 0xD0, CHR 0xD1, CHR 0xD2, CHR 0xD3, CHR 0xD4, CHR 0xD5, CHR 0xD6,
     CHR 0xD8, CHR 0xD9, CHR 0xDA, CHR 0xDB, CHR 0xDC, CHR 0xDD, CHR 0xDE]"

definition latin1_lower :: "char list" where
  "latin1_lower = [CHR 0xE0, CHR 0xE1, CHR 0xE2, CHR 0xE3, CHR 0xE4, CHR 0xE5, CHR 0xE6,
     CHR 0xE7, CHR 0xE8, CHR 0xE9, CHR 0xEA, CHR 0xEB, CHR 0xEC, CHR 0xED, CHR 0xEE,
     CHR 0xEF, CHR 0xF0, CHR 0xF1, CHR 0xF2, CHR 0xF3, CHR 0xF4, CHR 0xF5, CHR 0xF6,
     CHR 0xF8, CHR 0xF9, CHR 0xFA, CHR 0xFB, CHR 0xFC, CHR 0xFD, CHR 0xFE]"

definition lower_char :: "char \<Rightarrow> char" where
  "lower_char c =
     (case map_of (zip (ascii_upper @ latin1_upper) (ascii_lower @ latin1_lower)) c of
        Some l \<Rightarrow> l
      | None \<Rightarrow> c)"

definition lower :: "string \<Rightarrow> string" where
  "lower s = map lower_char s"

definition lstrip :: "string \<Rightarrow> string" where
  "lstrip s = dropWhile is_space s"

definition rstrip :: "string \<Rightarrow> string" where
  "rstrip s = rev (dropWhile is_space (rev s))"

definition strip :: "string \<Rightarrow> string" where
  "strip s = rstrip (lstrip s)"

subsection \<open>\<^verbatim>\<open>urllib.parse\<close>: \<^verbatim>\<open>urlsplit\<close>, \<^verbatim>\<open>urlparse\<close>, \<^verbatim>\<open>urlunsplit\<close>, \<^verbatim>\<open>urlunparse\<close>\<close>

definition uses_netloc :: "string list" where
  "uses_netloc = ['''', ''ftp'', ''http'', ''gopher'', ''nntp'', ''telnet'',
     ''imap'', ''wais'', ''file'', ''mms'', ''https'', ''shttp'',
     ''snews'', ''prospero'', ''rtsp'', ''rtsps'', ''rtspu'', ''rsync'',
     ''svn'', ''svn+ssh'', ''sftp'', ''nfs'', ''git'', ''git+ssh'',
     ''ws'', ''wss'']"

definition uses_params :: "string list" where
  "uses_params = ['''', ''ftp'', ''hdl'', ''prospero'', ''http'', ''imap'',
     ''https'', ''shttp'', ''rtsp'', ''rtsps'', ''rtspu'', ''sip'',
     ''sips'', ''mms'', ''sftp'', ''tel'']"

definition scheme_chars :: "char list" where
  "scheme_chars = ascii_lower @ ascii_upper @ ''0123456789'' @ ''+-.''"

definition is_ascii :: "char \<Rightarrow> bool" where
  "is_ascii c = ((of_char c :: nat) < 128)"

definition is_ascii_alpha :: "char \<Rightarrow> bool" where
  "is_ascii_alpha c = (c \<in> set (ascii_lower @ ascii_upper))"

text \<open>The characters of a scheme that \<^verbatim>\<open>urlsplit\<close> returns, once it is lower-cased:
  lower-case letters, digits and three signs.\<close>

definition lower_scheme_chars :: "char list" where
  "lower_scheme_chars = ascii_lower @ ''0123456789'' @ ''+-.''"

text \<open>\<^verbatim>\<open>url.lstrip(_WHATWG_C0_CONTROL_OR_SPACE)\<close>: the characters 0 to 0x20.\<close>

definition lstrip_c0 :: "string \<Rightarrow> string" where
  "lstrip_c0 url = dropWhile (\<lambda>c. (of_char c :: nat) \<le> 32) url"

text \<open>\<^verbatim>\<open>for b in _UNSAFE_URL_BYTES_TO_REMOVE: url = url.replace(b, "")\<close>: tab, CR, LF.\<close>

definition remove_unsafe :: "string \<Rightarrow> string" where
  "remove_unsafe url = filter (\<lambda>c. c \<notin> set [CHR 0x09, CHR 0x0D, CHR 0x0A]) url"

text \<open>\<^verbatim>\<open>s.split(c, 1)\<close> for a \<open>c\<close> that may or may not occur: the part before the first \<open>c\<close>
  and the part after it (empty when \<open>c\<close> does not occur, as the caller's initial value).\<close>

definition split_once :: "char \<Rightarrow> string \<Rightarrow> string \<times> string" where
  "split_once c s = (takeWhile (\<lambda>x. x \<noteq> c) s, drop 1 (dropWhile (\<lambda>x. x \<noteq> c) s))"

text \<open>\<^verbatim>\<open>_splitnetloc(url, 2)\<close>: from index 2, the netloc runs to the first of \<^verbatim>\<open>/?#\<close>.\<close>

definition splitnetloc :: "string \<Rightarrow> string \<times> string" where
  "splitnetloc url =
     (let delim = (\<lambda>c. c \<in> set ''/?#'')
      in (takeWhile (\<lambda>c. \<not> delim c) (drop 2 url), dropWhile (\<lambda>c. \<not> delim c) (drop 2 url)))"

text \<open>The checks of \<^verbatim>\<open>urlsplit\<close> on a netloc; False when one of them raises \<^verbatim>\<open>ValueError\<close>.\<close>

definition brackets_ok :: "stdlib \<Rightarrow> string \<Rightarrow> bool" where
  "brackets_ok L netloc =
     (let lb = (CHR ''['' \<in> set netloc); rb = (CHR '']'' \<in> set netloc)
      in if (lb \<and> \<not> rb) \<or> (rb \<and> \<not> lb) then False
         else if lb \<and> rb
           then check_bracketed_host L
                  (takeWhile (\<lambda>c. c \<noteq> CHR '']'')
                     (drop 1 (dropWhile (\<lambda>c. c \<noteq> CHR ''['') netloc)))
           else True)"

definition checknetloc :: "stdlib \<Rightarrow> string \<Rightarrow> bool" where
  "checknetloc L netloc =
     (if netloc = [] \<or> list_all is_ascii netloc then True else nfkc_netloc_ok L netloc)"

text \<open>\<^verbatim>\<open>urlsplit(url)\<close> with the default scheme \<^verbatim>\<open>''\<close>: \<open>None\<close> when it raises
  \<^verbatim>\<open>ValueError\<close>, else (scheme, netloc, path, query, fragment).\<close>

definition urlsplit :: "stdlib \<Rightarrow> string \<Rightarrow> (string \<times> string \<times> string \<times> string \<times> string) option" where
  "urlsplit L url0 =
     (let url = remove_unsafe (lstrip_c0 url0);
          pre = takeWhile (\<lambda>c. c \<noteq> CHR '':'') url;
          (scheme, url) =
             (if CHR '':'' \<in> set url \<and> pre \<noteq> [] \<and> is_ascii_alpha (hd url)
                 \<and> list_all (\<lambda>c. c \<in> set scheme_chars) pre
              then (lower pre, drop (Suc (length pre)) url)
              else ('''', url));
          (netloc, url) = (if take 2 url = ''//'' then splitnetloc url else ('''', url))
      in if \<not> brackets_ok L netloc then None
         else
           let (url, fragment) = split_once CHR ''#'' url;
               (url, query) = split_once CHR ''?'' url
           in if \<not> checknetloc L netloc then None
              else Some (scheme, netloc, url, query, fragment))"

text \<open>\<^verbatim>\<open>_splitparams(url)\<close>, which \<^verbatim>\<open>urlparse\<close> calls only when \<^verbatim>\<open>';' in url\<close>.\<close>

definition splitparams :: "string \<Rightarrow> string \<times> string" where
  "splitparams url =
     (if CHR ''/'' \<in> set url
      then (let seg = rev (takeWhile (\<lambda>c. c \<noteq> CHR ''/'') (rev url));
                front = take (length url - length seg) url
            in if CHR '';'' \<notin> set seg then (url, '''')
               else (front @ takeWhile (\<lambda>c. c \<noteq> CHR '';'') seg,
                     drop 1 (dropWhile (\<lambda>c. c \<noteq> CHR '';'') seg)))
      else (takeWhile (\<lambda>c. c \<noteq> CHR '';'') url, drop 1 (dropWhile (\<lambda>c. c \<noteq> CHR '';'') url)))"

text \<open>\<^verbatim>\<open>urlparse(url)\<close>: (scheme, netloc, path, params, query, fragment).\<close>

definition urlparse ::
  "stdlib \<Rightarrow> string \<Rightarrow> (string \<times> string \<times> string \<times> string \<times> string \<times> string) option" where
  "urlparse L url =
     (case urlsplit L url of
        None \<Rightarrow> None
      | Some (scheme, netloc, url, query, fragment) \<Rightarrow>
          let (url, params) =
                (if scheme \<in> set uses_params \<and> CHR '';'' \<in> set url then splitparams url
                 else (url, ''''))
          in Some (scheme, netloc, url, params, query, fragment))"

definition urlunsplit :: "string \<times> string \<times> string \<times> string \<times> string \<Rightarrow> string" where
  "urlunsplit components =
     (case components of (scheme, netloc, url, query, fragment) \<Rightarrow>
        let url = (if netloc \<noteq> [] \<or> (scheme \<noteq> [] \<and> scheme \<in> set uses_netloc) \<or> take 2 url = ''//''
                   then ''//'' @ netloc @ (if url \<noteq> [] \<and> take 1 url \<noteq> ''/'' then ''/'' @ url else url)
                   else url);
            url = (if scheme \<noteq> [] then scheme @ '':'' @ url else url);
            url = (if query \<noteq> [] then url @ ''?'' @ query else url);
            url = (if fragment \<noteq> [] then url @ ''#'' @ fragment else url)
        in url)"

definition urlunparse ::
  "string \<times> string \<times> string \<times> string \<times> string \<times> string \<Rightarrow> string" where
  "urlunparse components =
     (case components of (scheme, netloc, url, params, query, fragment) \<Rightarrow>
        urlunsplit (scheme, netloc, (if params \<noteq> [] then url @ '';'' @ params else url),
                    query, fragment))"

section \<open>The URL normalizer\<close>

text \<open>\<^verbatim>\<open>normalize_url\<close>: the \<^verbatim>\<open>except Exception: return url\<close> is the \<open>None\<close> branch.\<close>

definition normalize_url :: "stdlib \<Rightarrow> string \<Rightarrow> string" where
  "normalize_url L url =
     (case urlparse L url of
        None \<Rightarrow> url
      | Some (u_scheme, u_netloc, u_path, u_params, u_query, u_fragment) \<Rightarrow>
          let scheme = (if u_scheme \<noteq> [] then u_scheme else ''https'');
              netloc = u_netloc;
              path = (if u_path \<noteq> [] then u_path else ''/'');
              path = (if path \<noteq> ''/'' \<and> last path = CHR ''/'' then butlast path else path)
          in urlunparse (scheme, netloc, path, '''', '''', ''''))"

section \<open>Python values\<close>

text \<open>Truthiness of an \<^verbatim>\<open>Optional[str]\<close> and the idiom \<^verbatim>\<open>x or None\<close>.\<close>

definition truthy :: "string option \<Rightarrow> bool" where
  "truthy x = (case x of None \<Rightarrow> False | Some s \<Rightarrow> s \<noteq> [])"

definition or_none :: "string option \<Rightarrow> string option" where
  "or_none x = (if truthy x then x else None)"

text \<open>\<^verbatim>\<open>a or b or ''\<close> for the results of two \<^verbatim>\<open>dict.get\<close> calls.\<close>

definition or_else :: "string option \<Rightarrow> string option \<Rightarrow> string" where
  "or_else a b =
     (case (if truthy a then a else if truthy b then b else None) of
        Some s \<Rightarrow> s
      | None \<Rightarrow> [])"

text \<open>
  A \<^verbatim>\<open>dict\<close> is an association list in insertion order: assigning to a key that is
  present replaces its value in place, assigning to a new key appends it, as Python does.
\<close>

fun dict_set :: "('k \<times> 'v) list \<Rightarrow> 'k \<Rightarrow> 'v \<Rightarrow> ('k \<times> 'v) list" where
  "dict_set [] k v = [(k, v)]"
| "dict_set ((k', v') # d) k v = (if k' = k then (k, v) # d else (k', v') # dict_set d k v)"

definition dict_get :: "('k \<times> 'v) list \<Rightarrow> 'k \<Rightarrow> 'v option" where
  "dict_get d k = map_of d k"

section \<open>The metadata extractor\<close>

subsection \<open>The regular expressions\<close>

text \<open>A literal of a pattern compiled with \<^verbatim>\<open>re.IGNORECASE\<close>, given in lower case,
  matched at the start of \<open>s\<close>.\<close>

definition ci_prefix :: "string \<Rightarrow> string \<Rightarrow> bool" where
  "ci_prefix p s = (length p \<le> length s \<and> lower (take (length p) s) = p)"

text \<open>\<^verbatim>\<open>RE_META_TAG\<close> matched at the start of \<open>s\<close>. The pattern is the literal
  \<^verbatim>\<open><meta\<close>, then \<^verbatim>\<open>\s+\<close>, then the lazy class "any character but the closing angle
  bracket", then that bracket: a match needs a whitespace character right after the
  literal and ends at the first closing bracket. The result is the matched tag.\<close>

definition meta_match :: "string \<Rightarrow> string option" where
  "meta_match s =
     (let r = drop 5 s
      in if ci_prefix ''<meta'' s \<and> r \<noteq> [] \<and> is_space (hd r) \<and> CHR ''>'' \<in> set r
         then Some (take (Suc (5 + length (takeWhile (\<lambda>c. c \<noteq> CHR ''>'') r))) s)
         else None)"

lemma meta_match_length: "meta_match s = Some tag \<Longrightarrow> 0 < length tag \<and> length tag \<le> length s"
  by (auto simp: meta_match_def Let_def ci_prefix_def split: if_splits)

text \<open>\<^verbatim>\<open>RE_META_TAG.findall(text)\<close>: the matches from left to right, none overlapping.\<close>

function re_meta_findall :: "string \<Rightarrow> string list" where
  "re_meta_findall s =
     (if s = [] then []
      else case meta_match s of
             Some tag \<Rightarrow> tag # re_meta_findall (drop (length tag) s)
           | None \<Rightarrow> re_meta_findall (tl s))"
  by pat_completeness auto
termination
  by (relation "measure length") (auto dest: meta_match_length)

text \<open>
  \<^verbatim>\<open>RE_ATTR\<close> is: group 1, one or more of the letters, underscore, colon, backslash and
  hyphen; whitespace, the equals sign, whitespace; group 2, a single or double quote;
  whitespace; group 3, lazy, of the class written \<^verbatim>\<open>[^\2]\<close>; whitespace; a back
  reference to group 2. Inside a class \<^verbatim>\<open>\2\<close> is the character with code 2, so group
  3 may hold any character but that one (quotes included).

  \<open>attr_value q s\<close> matches group 3 and what follows it at \<open>s\<close>: the shortest group 3
  after which whitespace and the quote \<open>q\<close> come. It returns group 3 and the text after
  the match.
\<close>

definition attr_name_chars :: "char list" where
  "attr_name_chars = ascii_lower @ ascii_upper @ [CHR ''_'', CHR '':'', CHR 0x5C, CHR ''-'']"

fun attr_value :: "char \<Rightarrow> string \<Rightarrow> (string \<times> string) option" where
  "attr_value q [] = None"
| "attr_value q (c # t) =
     (if take 1 (lstrip (c # t)) = [q] then Some ([], drop 1 (lstrip (c # t)))
      else if c = CHR 0x02 then None
      else case attr_value q t of
             None \<Rightarrow> None
           | Some (g, rest) \<Rightarrow> Some (c # g, rest))"

text \<open>\<^verbatim>\<open>RE_ATTR\<close> matched at the start of \<open>s\<close>: group 1, group 3 and the text after the
  match.\<close>

definition attr_match :: "string \<Rightarrow> (string \<times> string \<times> string) option" where
  "attr_match s =
     (let name = takeWhile (\<lambda>c. c \<in> set attr_name_chars) s;
          r1 = lstrip (dropWhile (\<lambda>c. c \<in> set attr_name_chars) s);
          r2 = lstrip (drop 1 r1)
      in if name = [] \<or> take 1 r1 \<noteq> ''='' then None
         else if take 1 r2 = [CHR 0x27] \<or> take 1 r2 = [CHR 0x22]
           then (case attr_value (hd r2) (lstrip (drop 1 r2)) of
                   None \<Rightarrow> None
                 | Some (g, rest) \<Rightarrow> Some (name, g, rest))
           else None)"

lemma attr_value_length: "attr_value q s = Some (g, rest) \<Longrightarrow> length rest < length s"
proof (induction s arbitrary: g)
  case Nil
  then show ?case by simp
next
  case (Cons c t)
  have "length (drop 1 (lstrip (c # t))) < length (c # t)"
    if "take 1 (lstrip (c # t)) = [q]"
  proof -
    from that have "lstrip (c # t) \<noteq> []" by auto
    moreover have "length (lstrip (c # t)) \<le> length (c # t)"
      unfolding lstrip_def by (rule length_dropWhile_le)
    ultimately show ?thesis by (cases "lstrip (c # t)") auto
  qed
  with Cons show ?case
    by (fastforce split: if_splits option.splits)
qed

lemma attr_match_length: "attr_match s = Some (name, g, rest) \<Longrightarrow> length rest < length s"
proof -
  assume m: "attr_match s = Some (name, g, rest)"
  define r1 where "r1 = lstrip (dropWhile (\<lambda>c. c \<in> set attr_name_chars) s)"
  define r2 where "r2 = lstrip (drop 1 r1)"
  from m have v: "attr_value (hd r2) (lstrip (drop 1 r2)) = Some (g, rest)"
    by (auto simp: attr_match_def Let_def r1_def r2_def split: if_splits option.splits)
  have "length r1 \<le> length s"
    unfolding r1_def lstrip_def
    by (meson length_dropWhile_le order_trans)
  moreover have "length r2 \<le> length r1"
    unfolding r2_def lstrip_def
    by (metis diff_le_self length_drop length_dropWhile_le order_trans)
  moreover have "length (lstrip (drop 1 r2)) \<le> length r2"
    unfolding lstrip_def
    by (metis diff_le_self length_drop length_dropWhile_le order_trans)
  ultimately show ?thesis
    using attr_value_length [OF v] by linarith
qed

text \<open>\<^verbatim>\<open>RE_ATTR.finditer(tag_html)\<close>: groups 1 and 3 of the matches from left to right.\<close>

function re_attr_finditer :: "string \<Rightarrow> (string \<times> string) list" where
  "re_attr_finditer s =
     (if s = [] then []
      else case attr_match s of
             Some (name, g, rest) \<Rightarrow> (name, g) # re_attr_finditer rest
           | None \<Rightarrow> re_attr_finditer (tl s))"
  by pat_completeness auto
termination
  by (relation "measure length") (auto dest: attr_match_length)

text \<open>\<^verbatim>\<open>RE_TITLE\<close> is the literal \<^verbatim>\<open><title\<close>, a greedy run of characters other than
  the closing angle bracket, that bracket, a lazy group of any characters, and the literal
  \<^verbatim>\<open></title>\<close>. \<open>title_body\<close> is the lazy group: the text up to the first closing
  literal.\<close>

fun title_body :: "string \<Rightarrow> string option" where
  "title_body [] = None"
| "title_body (c # t) =
     (if ci_prefix ''</title>'' (c # t) then Some []
      else case title_body t of None \<Rightarrow> None | Some g \<Rightarrow> Some (c # g))"

definition title_match :: "string \<Rightarrow> string option" where
  "title_match s =
     (let r = drop 6 s
      in if ci_prefix ''<title'' s \<and> CHR ''>'' \<in> set r
         then title_body (drop 1 (dropWhile (\<lambda>c. c \<noteq> CHR ''>'') r))
         else None)"

text \<open>\<^verbatim>\<open>RE_TITLE.search(text)\<close>: group 1 of the leftmost match, \<open>None\<close> for no match.\<close>

fun re_title_search :: "string \<Rightarrow> string option" where
  "re_title_search [] = None"
| "re_title_search (c # t) =
     (case title_match (c # t) of Some g \<Rightarrow> Some g | None \<Rightarrow> re_title_search t)"

subsection \<open>String helpers\<close>

text \<open>\<^verbatim>\<open>s.split()\<close>: the maximal runs of characters that are not whitespace; \<open>w\<close> is the
  run being read.\<close>

fun split_ws :: "string \<Rightarrow> string \<Rightarrow> string list" where
  "split_ws w [] = (if w = [] then [] else [w])"
| "split_ws w (c # t) =
     (if is_space c then (if w = [] then split_ws [] t else w # split_ws [] t)
      else split_ws (w @ [c]) t)"

fun join_space :: "string list \<Rightarrow> string" where
  "join_space [] = []"
| "join_space [w] = w"
| "join_space (w # ws) = w @ '' '' @ join_space ws"

text \<open>\<^verbatim>\<open>html.unescape(s)\<close>: \<^verbatim>\<open>if '&' not in s: return s\<close>, else the substitution.\<close>

definition unescape :: "stdlib \<Rightarrow> string \<Rightarrow> string" where
  "unescape L s = (if CHR ''&'' \<notin> set s then s else replace_charrefs L s)"

subsection \<open>\<^verbatim>\<open>_parse_meta_attrs\<close> and \<^verbatim>\<open>extract_og_from_html\<close>\<close>

definition parse_meta_attrs :: "string \<Rightarrow> (string \<times> string) list" where
  "parse_meta_attrs tag_html =
     foldl (\<lambda>attrs (g1, g3). dict_set attrs (lower (strip g1)) (strip g3)) []
       (re_attr_finditer tag_html)"

text \<open>The two values the loop reads from a tag: \<^verbatim>\<open>prop\<close> (lower-cased) and
  \<^verbatim>\<open>content\<close>.\<close>

definition tag_prop :: "string \<Rightarrow> string" where
  "tag_prop tag =
     (let attrs = parse_meta_attrs tag
      in lower (or_else (dict_get attrs ''property'') (dict_get attrs ''name'')))"

definition tag_content :: "string \<Rightarrow> string" where
  "tag_content tag =
     (let attrs = parse_meta_attrs tag
      in or_else (dict_get attrs ''content'') (dict_get attrs ''value''))"

definition title_props :: "string list" where
  "title_props = [''og:title'', ''twitter:title'']"

definition image_props :: "string list" where
  "image_props = [''og:image'', ''og:image:secure_url'', ''twitter:image'', ''twitter:image:src'']"

text \<open>
  The loop over the tags, from the state \<open>(title, img)\<close>. The result is \<open>None\<close> when
  \<^verbatim>\<open>urljoin\<close> raises (nothing in \<^verbatim>\<open>extract_og_from_html\<close> catches it), else the state
  the loop ends in. The first equation of the \<open>else\<close> branch is the \<^verbatim>\<open>continue\<close>,
  the last \<open>if\<close> is the \<^verbatim>\<open>break\<close>.
\<close>

fun scan_tags ::
  "stdlib \<Rightarrow> string \<Rightarrow> string option \<times> string option \<Rightarrow> string list
     \<Rightarrow> (string option \<times> string option) option" where
  "scan_tags L base_url (title, img) [] = Some (title, img)"
| "scan_tags L base_url (title, img) (tag # tags) =
     (let prop = tag_prop tag; content = tag_content tag
      in if content = [] then scan_tags L base_url (title, img) tags
         else
           let title' = (if \<not> truthy title \<and> prop \<in> set title_props
                         then Some (strip content) else title)
           in case (if \<not> truthy img \<and> prop \<in> set image_props
                    then map_option Some (urljoin L base_url (strip content))
                    else Some img) of
                None \<Rightarrow> None
              | Some img' \<Rightarrow>
                  if truthy title' \<and> truthy img' then Some (title', img')
                  else scan_tags L base_url (title', img') tags)"

text \<open>What follows the loop: a title is unescaped and stripped, and when there is none
  (or an empty one) the title element of the document is the fallback. Both
  \<^verbatim>\<open>try\<close> blocks guard \<^verbatim>\<open>html.unescape\<close>, which does not raise on a string.\<close>

definition finish_title :: "stdlib \<Rightarrow> string \<Rightarrow> string option \<Rightarrow> string option" where
  "finish_title L text title =
     (let title = (if truthy title then map_option (\<lambda>t. strip (unescape L t)) title else title)
      in if \<not> truthy title
         then (case re_title_search text of
                 None \<Rightarrow> title
               | Some g \<Rightarrow> Some (strip (unescape L (join_space (split_ws [] g)))))
         else title)"

text \<open>\<^verbatim>\<open>extract_og_from_html(html, base_url)\<close>: \<open>None\<close> when it raises, else
  \<open>(title, image)\<close>; \<open>img\<close> stands for the source's \<^verbatim>\<open>image\<close>, a name HOL has taken. The decoder never raises, so the \<^verbatim>\<open>latin-1\<close> fallback is dead.\<close>

definition extract_og_from_html ::
  "stdlib \<Rightarrow> string \<Rightarrow> string \<Rightarrow> (string option \<times> string option) option" where
  "extract_og_from_html L html base_url =
     (let text = decode_utf8_replace L html
      in case scan_tags L base_url (None, None) (re_meta_findall text) of
           None \<Rightarrow> None
         | Some (title, img) \<Rightarrow> Some (finish_title L text title, img))"

text \<open>
  The same extraction with the early exit taken out: the loop of
  \<^verbatim>\<open>extract_og_from_html\<close> without its last two lines (\<^verbatim>\<open>if title and image: break\<close>),
  so that every tag is scanned. It is what the early exit is compared with.
\<close>

fun scan_tags_to_completion ::
  "stdlib \<Rightarrow> string \<Rightarrow> string option \<times> string option \<Rightarrow> string list
     \<Rightarrow> (string option \<times> string option) option" where
  "scan_tags_to_completion L base_url (title, img) [] = Some (title, img)"
| "scan_tags_to_completion L base_url (title, img) (tag # tags) =
     (let prop = tag_prop tag; content = tag_content tag
      in if content = [] then scan_tags_to_completion L base_url (title, img) tags
         else
           let title' = (if \<not> truthy title \<and> prop \<in> set title_props
                         then Some (strip content) else title)
           in case (if \<not> truthy img \<and> prop \<in> set image_props
                    then map_option Some (urljoin L base_url (strip content))
                    else Some img) of
                None \<Rightarrow> None
              | Some img' \<Rightarrow> scan_tags_to_completion L base_url (title', img') tags)"

definition extract_og_without_early_exit ::
  "stdlib \<Rightarrow> string \<Rightarrow> string \<Rightarrow> (string option \<times> string option) option" where
  "extract_og_without_early_exit L html base_url =
     (let text = decode_utf8_replace L html
      in case scan_tags_to_completion L base_url (None, None) (re_meta_findall text) of
           None \<Rightarrow> None
         | Some (title, img) \<Rightarrow> Some (finish_title L text title, img))"

section \<open>Fetching one URL\<close>

text \<open>
  The dictionaries with the keys \<^verbatim>\<open>title\<close> and \<^verbatim>\<open>image\<close> are the record \<open>meta\<close>
  (the field \<open>img\<close> is the key \<^verbatim>\<open>image\<close>); those that have the key \<^verbatim>\<open>url\<close> as well
  (a fetch result, an item of the payload) are the record \<open>item\<close>.
\<close>

record meta =
  title :: "string option"
  img :: "string option"

record item = meta +
  url :: string

text \<open>\<^verbatim>\<open>fetch_og_for_url(url)\<close>. The argument \<open>http\<close> is \<^verbatim>\<open>http_get\<close>
  as the network answers in this run: the bytes of the page, or \<open>None\<close> when it raises
  (a timeout, a connection error, a status that is an error). The \<^verbatim>\<open>except\<close> clause
  catches what \<^verbatim>\<open>http_get\<close> and \<^verbatim>\<open>extract_og_from_html\<close> raise.\<close>

definition fetch_og_for_url :: "stdlib \<Rightarrow> (string \<Rightarrow> string option) \<Rightarrow> string \<Rightarrow> item" where
  "fetch_og_for_url L http u =
     (let out = \<lparr> title = None, img = None, url = u \<rparr>
      in case http u of
           None \<Rightarrow> out
         | Some html \<Rightarrow>
             (case extract_og_from_html L html u of
                None \<Rightarrow> out
              | Some (t, i) \<Rightarrow> out \<lparr> title := t, img := i \<rparr>))"

section \<open>The resumable store and \<^verbatim>\<open>main\<close>\<close>

text \<open>
  What \<^verbatim>\<open>json.load\<close> gives for the output file of an earlier run, as far as \<^verbatim>\<open>main\<close>
  tells contents apart. The values under \<^verbatim>\<open>url\<close>, \<^verbatim>\<open>title\<close> and \<^verbatim>\<open>image\<close> are typed as
  the annotation of \<^verbatim>\<open>existing_map\<close> has them, \<^verbatim>\<open>Optional[str]\<close> (a missing key reads as
  \<open>None\<close>, as \<^verbatim>\<open>dict.get\<close> does). An element of a list that is no object makes \<^verbatim>\<open>item.get\<close>
  raise; so does a value of the legacy mapping that is truthy and no object.
\<close>

datatype json_item =
    Item "string option" "string option" "string option"  \<comment> \<open>url, title, image\<close>
  | NotAnObject

datatype json_meta =
    Meta "string option" "string option"  \<comment> \<open>title, image\<close>
  | FalsyMeta  \<comment> \<open>\<^verbatim>\<open>null\<close> or another falsy value: \<^verbatim>\<open>(meta or {})\<close> is the empty dict\<close>
  | NotAMapping

datatype store_file =
    ItemsObject "json_item list"  \<comment> \<open>an object whose \<^verbatim>\<open>items\<close> is a list\<close>
  | UrlObject "(string \<times> json_meta) list"  \<comment> \<open>any other object, key by key\<close>
  | ItemList "json_item list"  \<comment> \<open>a list\<close>
  | OtherJson  \<comment> \<open>a string, a number, a boolean or \<^verbatim>\<open>null\<close>\<close>
  | Unreadable  \<comment> \<open>\<^verbatim>\<open>open\<close> or \<^verbatim>\<open>json.load\<close> raises\<close>

text \<open>The two loading loops, from the map built so far. An exception leaves the loop and
  the \<^verbatim>\<open>try\<close> block; the entries stored before it stay in \<^verbatim>\<open>existing_map\<close>.\<close>

fun load_items :: "stdlib \<Rightarrow> (string \<times> meta) list \<Rightarrow> json_item list \<Rightarrow> (string \<times> meta) list" where
  "load_items L existing_map [] = existing_map"
| "load_items L existing_map (NotAnObject # items) = existing_map"
| "load_items L existing_map (Item u t i # items) =
     (if truthy u
      then load_items L
             (dict_set existing_map (normalize_url L (case u of Some s \<Rightarrow> s | None \<Rightarrow> []))
                \<lparr> title = or_none t, img = or_none i \<rparr>) items
      else load_items L existing_map items)"

fun load_url_object ::
  "stdlib \<Rightarrow> (string \<times> meta) list \<Rightarrow> (string \<times> json_meta) list \<Rightarrow> (string \<times> meta) list" where
  "load_url_object L existing_map [] = existing_map"
| "load_url_object L existing_map ((u, NotAMapping) # rest) = existing_map"
| "load_url_object L existing_map ((u, FalsyMeta) # rest) =
     load_url_object L (dict_set existing_map (normalize_url L u) \<lparr> title = None, img = None \<rparr>) rest"
| "load_url_object L existing_map ((u, Meta t i) # rest) =
     load_url_object L (dict_set existing_map (normalize_url L u) \<lparr> title = t, img = i \<rparr>) rest"

definition load_existing :: "stdlib \<Rightarrow> store_file \<Rightarrow> (string \<times> meta) list" where
  "load_existing L existing =
     (case existing of
        ItemsObject items \<Rightarrow> load_items L [] items
      | UrlObject kvs \<Rightarrow> load_url_object L [] kvs
      | ItemList items \<Rightarrow> load_items L [] items
      | OtherJson \<Rightarrow> []
      | Unreadable \<Rightarrow> [])"

text \<open>The loop "Dedupe + normalize"; the set \<^verbatim>\<open>seen\<close> holds the elements of
  \<^verbatim>\<open>norm_urls\<close> at every step, so the list stands for both.\<close>

fun dedupe :: "stdlib \<Rightarrow> string list \<Rightarrow> string list \<Rightarrow> string list" where
  "dedupe L norm_urls [] = norm_urls"
| "dedupe L norm_urls (u # urls) =
     (let nu = normalize_url L u
      in if nu \<noteq> [] \<and> nu \<notin> set norm_urls then dedupe L (norm_urls @ [nu]) urls
         else dedupe L norm_urls urls)"

text \<open>The loop that fills \<^verbatim>\<open>to_fetch\<close>.\<close>

fun to_fetch :: "bool \<Rightarrow> (string \<times> meta) list \<Rightarrow> string list \<Rightarrow> string list" where
  "to_fetch overwrite existing_map [] = []"
| "to_fetch overwrite existing_map (u # norm_urls) =
     (if overwrite \<or> dict_get existing_map u = None
         \<or> (case dict_get existing_map u of
               Some m \<Rightarrow> \<not> truthy (title m) \<and> \<not> truthy (img m)
             | None \<Rightarrow> True)
      then u # to_fetch overwrite existing_map norm_urls
      else to_fetch overwrite existing_map norm_urls)"

text \<open>The dictionary \<^verbatim>\<open>{'title': d.get('title') or None, 'image': d.get('image') or None}\<close>
  that the merge builds from a stored entry and from a fetch result.\<close>

definition title_image_or_none :: "'a meta_scheme \<Rightarrow> meta" where
  "title_image_or_none d = \<lparr> title = or_none (title d), img = or_none (img d) \<rparr>"

text \<open>"Start with existing" and "Overlay fetched results".\<close>

fun start_with_existing :: "(string \<times> meta) list \<Rightarrow> (string \<times> meta) list \<Rightarrow> (string \<times> meta) list" where
  "start_with_existing mapping [] = mapping"
| "start_with_existing mapping ((u, m) # rest) =
     start_with_existing (dict_set mapping u (title_image_or_none m)) rest"

fun overlay :: "(string \<times> meta) list \<Rightarrow> item list \<Rightarrow> (string \<times> meta) list" where
  "overlay mapping [] = mapping"
| "overlay mapping (it # results) =
     (if url it = [] then overlay mapping results
      else overlay (dict_set mapping (url it) (title_image_or_none it)) results)"

definition merge :: "(string \<times> meta) list \<Rightarrow> item list \<Rightarrow> (string \<times> meta) list" where
  "merge existing_map results = overlay (start_with_existing [] existing_map) results"

definition payload :: "(string \<times> meta) list \<Rightarrow> item list" where
  "payload mapping = map (\<lambda>(u, v). \<lparr> title = title v, img = img v, url = u \<rparr>) mapping"

text \<open>
  The command line and the world of one run. \<open>weekly\<close> is what
  \<^verbatim>\<open>gather_urls_from_weekly_dir\<close> returns (it catches every exception); \<open>dashboard\<close> is what
  \<^verbatim>\<open>gather_urls_from_dashboard_json\<close> returns, \<open>None\<close> when it raises (\<^verbatim>\<open>data.get\<close> and
  \<^verbatim>\<open>url_data.items\<close> are outside its \<^verbatim>\<open>try\<close> blocks and raise on a JSON document, or a
  truthy \<^verbatim>\<open>url_data\<close>, that is no object);
  \<open>output_file\<close> is the output file before the run (\<open>None\<close>: it does not exist);
  \<open>as_completed\<close> is the order in which the futures complete; \<open>write_ok\<close> tells whether
  the final \<^verbatim>\<open>open(args.output, 'w')\<close> and \<^verbatim>\<open>json.dump\<close> succeed (they are outside any
  \<^verbatim>\<open>try\<close>: a directory that does not exist, a file that is not writable).
\<close>

datatype source_choice = Auto | Weekly | Dashboard

record args =
  source :: source_choice
  max_workers :: int
  limit :: int
  overwrite :: bool

record world =
  weekly :: "string list"
  dashboard :: "string list option"
  output_file :: "store_file option"
  http_get :: "string \<Rightarrow> string option"
  as_completed :: "item list \<Rightarrow> item list"
  write_ok :: bool

datatype outcome =
    Exit1  \<comment> \<open>\<^verbatim>\<open>sys.exit(1)\<close>; nothing is written\<close>
  | Uncaught  \<comment> \<open>an exception leaves \<^verbatim>\<open>main\<close> before the write: status 1, nothing is written\<close>
  | WriteFailed  \<comment> \<open>the final \<^verbatim>\<open>open\<close> or \<^verbatim>\<open>json.dump\<close> raises: status 1, no complete file\<close>
  | Wrote "item list"  \<comment> \<open>the \<^verbatim>\<open>items\<close> of the file written; status 0\<close>


text \<open>The discovery of \<^verbatim>\<open>main\<close>: the list \<^verbatim>\<open>urls\<close>, or \<open>None\<close> when the reader of the
  dashboard is called and raises.\<close>

definition discover :: "args \<Rightarrow> world \<Rightarrow> string list option" where
  "discover a W =
     (case source a of
        Auto \<Rightarrow> (if weekly W \<noteq> [] then Some (weekly W) else dashboard W)
      | Weekly \<Rightarrow> Some (weekly W)
      | Dashboard \<Rightarrow> dashboard W)"

text \<open>
  The local variables of \<^verbatim>\<open>main\<close> as functions of the run: \<^verbatim>\<open>norm_urls\<close> after
  the limit is applied, \<^verbatim>\<open>existing_map\<close> after loading, \<^verbatim>\<open>to_fetch\<close> and
  \<^verbatim>\<open>results\<close>.
\<close>

definition main_norm_urls :: "stdlib \<Rightarrow> args \<Rightarrow> world \<Rightarrow> string list" where
  "main_norm_urls L a W =
     (let urls = (case discover a W of Some urls \<Rightarrow> urls | None \<Rightarrow> []);
          norm_urls = dedupe L [] urls
      in if limit a \<noteq> 0 \<and> limit a > 0 then take (nat (limit a)) norm_urls else norm_urls)"

definition main_existing_map :: "stdlib \<Rightarrow> args \<Rightarrow> world \<Rightarrow> (string \<times> meta) list" where
  "main_existing_map L a W =
     (if \<not> overwrite a
      then (case output_file W of
              Some existing \<Rightarrow> load_existing L existing
            | None \<Rightarrow> [])
      else [])"

definition main_to_fetch :: "stdlib \<Rightarrow> args \<Rightarrow> world \<Rightarrow> string list" where
  "main_to_fetch L a W = to_fetch (overwrite a) (main_existing_map L a W) (main_norm_urls L a W)"

definition main_results :: "stdlib \<Rightarrow> args \<Rightarrow> world \<Rightarrow> item list" where
  "main_results L a W =
     as_completed W (map (fetch_og_for_url L (http_get W)) (main_to_fetch L a W))"

text \<open>
  \<^verbatim>\<open>main\<close>. An exception of the discovery leaves \<^verbatim>\<open>main\<close>;
  \<^verbatim>\<open>ThreadPoolExecutor(max_workers=n)\<close> raises \<^verbatim>\<open>ValueError\<close> for \<open>n \<le> 0\<close>, and nothing
  catches it; the workers catch what a fetch raises; the final write is outside any \<^verbatim>\<open>try\<close>.
  Failures of printing are not modelled.
\<close>

definition main :: "stdlib \<Rightarrow> args \<Rightarrow> world \<Rightarrow> outcome" where
  "main L a W =
     (case discover a W of
        None \<Rightarrow> Uncaught
      | Some urls \<Rightarrow>
          if urls = [] then Exit1
          else if max_workers a \<le> 0 then Uncaught
          else if \<not> write_ok W then WriteFailed
          else Wrote (payload (merge (main_existing_map L a W) (main_results L a W))))"

text \<open>
  A library for closed examples. The examples are ASCII, have no character reference and
  no bracket in a host, and their image URLs are absolute: there the decoder is the
  identity, \<^verbatim>\<open>urljoin\<close> returns the URL it is given, and Python reaches none of the
  other functions.
\<close>

definition ascii_lib :: stdlib where
  "ascii_lib = \<lparr> decode_utf8_replace = id, replace_charrefs = id,
                 urljoin = (\<lambda>base url. Some url), check_bracketed_host = (\<lambda>h. False),
                 nfkc_netloc_ok = (\<lambda>n. False) \<rparr>"

section \<open>Dictionaries and the merge\<close>

lemma map_of_dict_set: "map_of (dict_set d k v) = (map_of d)(k \<mapsto> v)"
  by (induction d k v rule: dict_set.induct) (auto simp: fun_eq_iff)

lemma dict_get_dict_set: "dict_get (dict_set d k v) k' = (if k' = k then Some v else dict_get d k')"
  by (simp add: dict_get_def map_of_dict_set)

lemma keys_dict_set: "fst ` set (dict_set d k v) = insert k (fst ` set d)"
  by (induction d k v rule: dict_set.induct) auto

lemma distinct_dict_set: "distinct (map fst d) \<Longrightarrow> distinct (map fst (dict_set d k v))"
proof (induction d k v rule: dict_set.induct)
  case (1 k v)
  then show ?case by simp
next
  case (2 k' v' d k v)
  then show ?case
    using keys_dict_set [of d k v] by (auto simp: image_iff)
qed

lemma overlay_other:
  "u = [] \<or> u \<notin> url ` set results \<Longrightarrow> dict_get (overlay mapping results) u = dict_get mapping u"
  by (induction mapping results rule: overlay.induct) (auto simp: dict_get_dict_set)

lemma overlay_fetched:
  "distinct (map url results) \<Longrightarrow> r \<in> set results \<Longrightarrow> url r \<noteq> [] \<Longrightarrow>
   dict_get (overlay mapping results) (url r) = Some (title_image_or_none r)"
proof (induction mapping results rule: overlay.induct)
  case (1 mapping)
  then show ?case by simp
next
  case (2 mapping it results)
  show ?case
  proof (cases "r = it")
    case True
    with 2 have "url it \<notin> url ` set results" by auto
    with True 2 show ?thesis
      by (simp add: overlay_other dict_get_dict_set)
  next
    case False
    with 2 show ?thesis by auto
  qed
qed

lemma start_with_existing_get:
  "distinct (map fst existing_map) \<Longrightarrow>
   dict_get (start_with_existing mapping existing_map) u =
     (case dict_get existing_map u of
        Some m \<Rightarrow> Some (title_image_or_none m)
      | None \<Rightarrow> dict_get mapping u)"
proof (induction mapping existing_map rule: start_with_existing.induct)
  case (1 mapping)
  then show ?case by (simp add: dict_get_def)
next
  case (2 mapping k m rest)
  then have "k \<notin> fst ` set rest" by auto
  then have "map_of rest k = None" by (simp add: map_of_eq_None_iff)
  with 2 show ?case
    by (auto simp: dict_get_def map_of_dict_set split: option.splits)
qed

lemma keys_start_with_existing:
  "fst ` set (start_with_existing mapping existing_map) = fst ` set mapping \<union> fst ` set existing_map"
  by (induction mapping existing_map rule: start_with_existing.induct) (auto simp: keys_dict_set)

lemma keys_overlay:
  "fst ` set (overlay mapping results) = fst ` set mapping \<union> (url ` set results - {[]})"
  by (induction mapping results rule: overlay.induct) (auto simp: keys_dict_set)



text \<open>
  Claim C7. For a fixed prior store and fetch results with distinct URLs, the merged mapping
  is the same for every order in which the results arrive: two lists of results with the
  same elements give mappings that agree on every key. No update is lost: in whatever order
  the results arrive, every result with a non-empty URL is in the merged mapping under its
  URL, with its own metadata (an empty string stored as null), and a URL without a result
  keeps what the prior store (a dictionary: each key once) has for it.
\<close>

theorem merge_arrival_order:
  assumes "distinct (map url results)" and "mset results' = mset results"
  shows "dict_get (merge existing_map results') = dict_get (merge existing_map results)
    \<and> (\<forall>r \<in> set results. url r \<noteq> [] \<longrightarrow>
          dict_get (merge existing_map results') (url r) = Some (title_image_or_none r))
    \<and> (distinct (map fst existing_map) \<longrightarrow>
         (\<forall>u. u \<notin> url ` set results \<longrightarrow>
            dict_get (merge existing_map results') u
              = map_option title_image_or_none (dict_get existing_map u)))"
proof (intro conjI ballI impI allI)
  from assms(2) have s: "set results' = set results" by (rule mset_eq_setD)
  from assms(2) have "mset (map url results') = mset (map url results)" by simp
  with assms(1) have d: "distinct (map url results')"
    by (metis distinct_count_atmost_1 set_mset_mset)
  show "dict_get (merge existing_map results') = dict_get (merge existing_map results)"
  proof
    fix u
    show "dict_get (merge existing_map results') u = dict_get (merge existing_map results) u"
    proof (cases "u = [] \<or> u \<notin> url ` set results")
      case True
      with s show ?thesis by (simp add: merge_def overlay_other)
    next
      case False
      then obtain r where r: "r \<in> set results" "url r = u" "u \<noteq> []" by auto
      with s d assms(1) show ?thesis
        unfolding merge_def
        using overlay_fetched [of results r] overlay_fetched [of results' r] by auto
    qed
  qed
  show "dict_get (merge existing_map results') (url r) = Some (title_image_or_none r)"
    if "r \<in> set results" "url r \<noteq> []" for r
    unfolding merge_def using that s d by (intro overlay_fetched) simp_all
  show "dict_get (merge existing_map results') u
          = map_option title_image_or_none (dict_get existing_map u)"
    if dm: "distinct (map fst existing_map)" and u: "u \<notin> url ` set results" for u
  proof -
    from u s have "dict_get (merge existing_map results') u
        = dict_get (start_with_existing [] existing_map) u"
      by (simp add: merge_def overlay_other)
    also have "\<dots> = map_option title_image_or_none (dict_get existing_map u)"
      unfolding start_with_existing_get [OF dm]
      by (cases "dict_get existing_map u") (simp_all, simp add: dict_get_def)
    finally show ?thesis .
  qed
qed

theorem merge_arrival_order_witness:
  "dict_get (merge [(''https://x.com/a'', \<lparr>title = Some ''A'', img = None\<rparr>)]
       [\<lparr>title = Some ''B'', img = None, url = ''https://x.com/b''\<rparr>,
        \<lparr>title = Some ''C'', img = None, url = ''https://x.com/c''\<rparr>])
   = dict_get (merge [(''https://x.com/a'', \<lparr>title = Some ''A'', img = None\<rparr>)]
       [\<lparr>title = Some ''C'', img = None, url = ''https://x.com/c''\<rparr>,
        \<lparr>title = Some ''B'', img = None, url = ''https://x.com/b''\<rparr>])
   \<and> dict_get (merge [(''https://x.com/a'', \<lparr>title = Some ''A'', img = None\<rparr>)]
       [\<lparr>title = Some ''B'', img = None, url = ''https://x.com/b''\<rparr>,
        \<lparr>title = Some ''C'', img = None, url = ''https://x.com/c''\<rparr>]) ''https://x.com/c''
     = Some \<lparr>title = Some ''C'', img = None\<rparr>
   \<and> dict_get (merge [(''https://x.com/a'', \<lparr>title = Some ''A'', img = None\<rparr>)]
       [\<lparr>title = Some ''B'', img = None, url = ''https://x.com/b''\<rparr>,
        \<lparr>title = Some ''C'', img = None, url = ''https://x.com/c''\<rparr>]) ''https://x.com/a''
     = Some \<lparr>title = Some ''A'', img = None\<rparr>"
  using merge_arrival_order
    [of "[\<lparr>title = Some ''C'', img = None, url = ''https://x.com/c''\<rparr>,
          \<lparr>title = Some ''B'', img = None, url = ''https://x.com/b''\<rparr>]"
        "[\<lparr>title = Some ''B'', img = None, url = ''https://x.com/b''\<rparr>,
          \<lparr>title = Some ''C'', img = None, url = ''https://x.com/c''\<rparr>]"
        "[(''https://x.com/a'', \<lparr>title = Some ''A'', img = None\<rparr>)]"]
  by (simp add: merge_def dict_get_def title_image_or_none_def or_none_def truthy_def)

lemma overlay_last:
  "dict_get (overlay mapping results) u =
     (if u \<noteq> [] \<and> filter (\<lambda>r. url r = u) results \<noteq> []
      then Some (title_image_or_none (last (filter (\<lambda>r. url r = u) results)))
      else dict_get mapping u)"
  by (induction mapping results rule: overlay.induct) (auto simp: dict_get_dict_set)

text \<open>
  Claim C3, as the code has it. For a loaded mapping (a dictionary: each key once) and any
  list of fetch results, the merged mapping maps a non-empty URL that has a fetch result to
  the metadata of the last such result, and every other URL to what the loaded mapping has
  for it; in both cases a title or image that is the empty string is stored as null.
\<close>

theorem merge_precedence:
  assumes "distinct (map fst existing_map)"
  shows "dict_get (merge existing_map results) u =
     (if u \<noteq> [] \<and> filter (\<lambda>r. url r = u) results \<noteq> []
      then Some (title_image_or_none (last (filter (\<lambda>r. url r = u) results)))
      else map_option title_image_or_none (dict_get existing_map u))"
proof -
  have "dict_get (start_with_existing [] existing_map) u =
          map_option title_image_or_none (dict_get existing_map u)"
    unfolding start_with_existing_get [OF assms]
    by (cases "dict_get existing_map u") (simp_all, simp add: dict_get_def)
  then show ?thesis
    by (auto simp: merge_def overlay_last)
qed

theorem merge_precedence_witness:
  "dict_get (merge [(''https://x.com/a'', \<lparr>title = Some ''A'', img = Some []\<rparr>),
                    (''https://x.com/b'', \<lparr>title = Some ''B'', img = None\<rparr>)]
       [\<lparr>title = Some ''New'', img = None, url = ''https://x.com/b''\<rparr>]) ''https://x.com/b''
     = Some \<lparr>title = Some ''New'', img = None\<rparr>
   \<and> dict_get (merge [(''https://x.com/a'', \<lparr>title = Some ''A'', img = Some []\<rparr>),
                    (''https://x.com/b'', \<lparr>title = Some ''B'', img = None\<rparr>)]
       [\<lparr>title = Some ''New'', img = None, url = ''https://x.com/b''\<rparr>]) ''https://x.com/a''
     = Some \<lparr>title = Some ''A'', img = None\<rparr>"
  using merge_precedence [of "[(''https://x.com/a'', \<lparr>title = Some ''A'', img = Some []\<rparr>),
                    (''https://x.com/b'', \<lparr>title = Some ''B'', img = None\<rparr>)]"
       "[\<lparr>title = Some ''New'', img = None, url = ''https://x.com/b''\<rparr>]" "''https://x.com/b''"]
    merge_precedence [of "[(''https://x.com/a'', \<lparr>title = Some ''A'', img = Some []\<rparr>),
                    (''https://x.com/b'', \<lparr>title = Some ''B'', img = None\<rparr>)]"
       "[\<lparr>title = Some ''New'', img = None, url = ''https://x.com/b''\<rparr>]" "''https://x.com/a''"]
  by (simp add: dict_get_def title_image_or_none_def or_none_def truthy_def)

text \<open>
  The claim as the specification states it fails: a stored entry and a fetch result whose
  title is the empty string are not kept unchanged, the merge stores null.
\<close>

theorem merge_unchanged_counterexample:
  "dict_get (merge [(''https://x.com/a'', \<lparr>title = Some [], img = Some ''i''\<rparr>)] []) ''https://x.com/a''
     = Some \<lparr>title = None, img = Some ''i''\<rparr>
   \<and> dict_get (merge [] [\<lparr>title = Some [], img = None, url = ''https://x.com/b''\<rparr>]) ''https://x.com/b''
     = Some \<lparr>title = None, img = None\<rparr>"
  by (simp add: merge_def dict_get_def title_image_or_none_def or_none_def truthy_def)

section \<open>The queue of URLs to fetch\<close>

text \<open>
  Claim C2. In overwrite mode every target URL is queued. In resume mode the queue is the
  targets, in their order, that are absent from the prior store or whose stored entry has
  an empty title and an empty image (null or the empty string): a target stored with one
  field that is not empty is skipped.
\<close>

theorem to_fetch_queue:
  "to_fetch True existing_map norm_urls = norm_urls
   \<and> to_fetch False existing_map norm_urls =
       filter (\<lambda>u. case dict_get existing_map u of
                      None \<Rightarrow> True
                    | Some m \<Rightarrow> title m \<in> {None, Some []} \<and> img m \<in> {None, Some []})
         norm_urls"
proof -
  have e: "(\<not> truthy x) = (x \<in> {None, Some []})" for x
    by (cases x) (auto simp: truthy_def)
  have "to_fetch True existing_map norm_urls = norm_urls"
    by (induction norm_urls) auto
  moreover have "to_fetch False existing_map norm_urls =
       filter (\<lambda>u. case dict_get existing_map u of
                      None \<Rightarrow> True
                    | Some m \<Rightarrow> title m \<in> {None, Some []} \<and> img m \<in> {None, Some []})
         norm_urls"
    by (induction norm_urls) (auto simp: e split: option.splits)
  ultimately show ?thesis by simp
qed

theorem to_fetch_queue_witness:
  "to_fetch True [(''a'', \<lparr>title = Some ''T'', img = None\<rparr>), (''b'', \<lparr>title = None, img = Some []\<rparr>)]
       [''a'', ''b'', ''c''] = [''a'', ''b'', ''c'']
   \<and> to_fetch False [(''a'', \<lparr>title = Some ''T'', img = None\<rparr>), (''b'', \<lparr>title = None, img = Some []\<rparr>)]
       [''a'', ''b'', ''c''] = [''b'', ''c'']"
  using to_fetch_queue [of "[(''a'', \<lparr>title = Some ''T'', img = None\<rparr>), (''b'', \<lparr>title = None, img = Some []\<rparr>)]"
      "[''a'', ''b'', ''c'']"]
  by (simp add: dict_get_def)

section \<open>The written store\<close>

lemma or_none_not_empty: "or_none x \<noteq> Some []"
  by (cases x) (auto simp: or_none_def truthy_def)

lemma set_dict_set: "set (dict_set d k v) \<subseteq> insert (k, v) (set d)"
  by (induction d k v rule: dict_set.induct) auto

lemma start_with_existing_values:
  "(u, m) \<in> set (start_with_existing mapping existing_map) \<Longrightarrow>
   (u, m) \<in> set mapping \<or> (\<exists>d. (u, d) \<in> set existing_map \<and> m = title_image_or_none d)"
proof (induction mapping existing_map rule: start_with_existing.induct)
  case (1 mapping)
  then show ?case by simp
next
  case (2 mapping k d rest)
  from 2 set_dict_set [of mapping k "title_image_or_none d"] show ?case
    by fastforce
qed

lemma overlay_values:
  "(u, m) \<in> set (overlay mapping results) \<Longrightarrow>
   (u, m) \<in> set mapping \<or> (\<exists>r \<in> set results. url r = u \<and> m = title_image_or_none r)"
proof (induction mapping results rule: overlay.induct)
  case (1 mapping)
  then show ?case by simp
next
  case (2 mapping it results)
  from 2 set_dict_set [of mapping "url it" "title_image_or_none it"] show ?case
    by (fastforce split: if_splits)
qed

lemma merge_values:
  assumes "(u, m) \<in> set (merge existing_map results)"
  shows "(\<exists>d. (u, d) \<in> set existing_map \<and> m = title_image_or_none d)
         \<or> (\<exists>r \<in> set results. url r = u \<and> m = title_image_or_none r)"
  using overlay_values [OF assms [unfolded merge_def]]
        start_with_existing_values [of u m "[]" existing_map]
  by auto

lemma merge_values_not_empty:
  "(u, m) \<in> set (merge existing_map results) \<Longrightarrow> title m \<noteq> Some [] \<and> img m \<noteq> Some []"
  by (auto dest!: merge_values simp: title_image_or_none_def or_none_not_empty)

lemma load_items_values:
  "(u, m) \<in> set (load_items L existing_map js) \<Longrightarrow>
   (u, m) \<in> set existing_map \<or> (title m \<noteq> Some [] \<and> img m \<noteq> Some [])"
proof (induction L existing_map js rule: load_items.induct)
  case (1 L existing_map)
  then show ?case by simp
next
  case (2 L existing_map items)
  then show ?case by simp
next
  case (3 L existing_map k t i items)
  show ?case
  proof (cases "truthy k")
    case True
    with 3 set_dict_set [of existing_map "normalize_url L (case k of Some s \<Rightarrow> s | None \<Rightarrow> [])"
        "\<lparr>title = or_none t, img = or_none i\<rparr>"]
    show ?thesis by (fastforce simp: or_none_not_empty)
  next
    case False
    with 3 show ?thesis by simp
  qed
qed

lemma to_fetch_member:
  "u \<in> set (to_fetch ow existing_map norm_urls) \<longleftrightarrow>
     u \<in> set norm_urls \<and>
     (ow \<or> (case dict_get existing_map u of
               None \<Rightarrow> True
             | Some m \<Rightarrow> \<not> truthy (title m) \<and> \<not> truthy (img m)))"
  by (induction norm_urls) (auto split: option.splits)

text \<open>
  Claim C10. In the written store every title and every image is null or a non-empty
  string, never the empty string; loading a store of the items shape gives no empty-string
  field; and in resume mode a target whose stored title and image are both the empty string
  is queued for fetching again.
\<close>

theorem written_fields_never_empty:
  "(main L a W = Wrote items \<longrightarrow>
      (\<forall>it \<in> set items. title it \<noteq> Some [] \<and> img it \<noteq> Some []))
   \<and> (\<forall>(u, m) \<in> set (load_existing L (ItemsObject js)). title m \<noteq> Some [] \<and> img m \<noteq> Some [])
   \<and> (dict_get existing_map u = Some m \<and> title m = Some [] \<and> img m = Some [] \<and> u \<in> set norm_urls
        \<longrightarrow> u \<in> set (to_fetch False existing_map norm_urls))"
proof (intro conjI)
  show "main L a W = Wrote items \<longrightarrow>
      (\<forall>it \<in> set items. title it \<noteq> Some [] \<and> img it \<noteq> Some [])"
    using merge_values_not_empty
    by (auto simp: main_def payload_def split: if_splits option.splits)
  show "\<forall>(u, m) \<in> set (load_existing L (ItemsObject js)). title m \<noteq> Some [] \<and> img m \<noteq> Some []"
    using load_items_values [of _ _ L "[]" js] by (auto simp: load_existing_def)
  show "dict_get existing_map u = Some m \<and> title m = Some [] \<and> img m = Some [] \<and> u \<in> set norm_urls
        \<longrightarrow> u \<in> set (to_fetch False existing_map norm_urls)"
    by (auto simp: to_fetch_member truthy_def)
qed

theorem written_fields_never_empty_witness:
  "main ascii_lib \<lparr>source = Auto, max_workers = 16, limit = 0, overwrite = False\<rparr>
     \<lparr>weekly = [''https://x.com/a'', ''https://x.com/b''], dashboard = Some [],
      output_file = Some (ItemsObject [Item (Some ''https://x.com/a'') (Some ''A'') (Some []),
                                       Item (Some ''https://x.com/b'') (Some []) (Some [])]),
      http_get = Map.empty, as_completed = id, write_ok = True\<rparr>
     = Wrote [\<lparr>title = Some ''A'', img = None, url = ''https://x.com/a''\<rparr>,
              \<lparr>title = None, img = None, url = ''https://x.com/b''\<rparr>]
   \<and> list_all (\<lambda>it. title it \<noteq> Some [] \<and> img it \<noteq> Some [])
        [\<lparr>title = Some ''A'', img = None, url = ''https://x.com/a''\<rparr>,
         \<lparr>title = None, img = None, url = ''https://x.com/b''\<rparr>]
   \<and> ''https://x.com/b'' \<in> set (to_fetch False
         [(''https://x.com/b'', \<lparr>title = Some [], img = Some []\<rparr>)]
         [''https://x.com/a'', ''https://x.com/b''])"
proof -
  have run: "main ascii_lib \<lparr>source = Auto, max_workers = 16, limit = 0, overwrite = False\<rparr>
     \<lparr>weekly = [''https://x.com/a'', ''https://x.com/b''], dashboard = Some [],
      output_file = Some (ItemsObject [Item (Some ''https://x.com/a'') (Some ''A'') (Some []),
                                       Item (Some ''https://x.com/b'') (Some []) (Some [])]),
      http_get = Map.empty, as_completed = id, write_ok = True\<rparr>
     = Wrote [\<lparr>title = Some ''A'', img = None, url = ''https://x.com/a''\<rparr>,
              \<lparr>title = None, img = None, url = ''https://x.com/b''\<rparr>]"
    by code_simp
  have ld: "dict_get [(''https://x.com/b'', \<lparr>title = Some [], img = Some []\<rparr>)] ''https://x.com/b''
      = Some \<lparr>title = Some [], img = Some []\<rparr>"
    by (simp add: dict_get_def)
  from run ld written_fields_never_empty
    [where L = ascii_lib
       and a = "\<lparr>source = Auto, max_workers = 16, limit = 0, overwrite = False\<rparr>"
       and W = "\<lparr>weekly = [''https://x.com/a'', ''https://x.com/b''], dashboard = Some [],
      output_file = Some (ItemsObject [Item (Some ''https://x.com/a'') (Some ''A'') (Some []),
                                       Item (Some ''https://x.com/b'') (Some []) (Some [])]),
      http_get = Map.empty, as_completed = id, write_ok = True\<rparr>"
       and items = "[\<lparr>title = Some ''A'', img = None, url = ''https://x.com/a''\<rparr>,
              \<lparr>title = None, img = None, url = ''https://x.com/b''\<rparr>]"
       and existing_map = "[(''https://x.com/b'', \<lparr>title = Some [], img = Some []\<rparr>)]"
       and u = "''https://x.com/b''"
       and m = "\<lparr>title = Some [], img = Some []\<rparr>"
       and norm_urls = "[''https://x.com/a'', ''https://x.com/b'']"]
  show ?thesis by simp
qed

lemma distinct_load_items:
  "distinct (map fst existing_map) \<Longrightarrow> distinct (map fst (load_items L existing_map js))"
  by (induction L existing_map js rule: load_items.induct) (auto simp: distinct_dict_set)

lemma distinct_load_url_object:
  "distinct (map fst existing_map) \<Longrightarrow> distinct (map fst (load_url_object L existing_map kvs))"
  by (induction L existing_map kvs rule: load_url_object.induct) (auto simp: distinct_dict_set)

lemma distinct_load_existing: "distinct (map fst (load_existing L existing))"
  by (cases existing) (simp_all add: load_existing_def distinct_load_items distinct_load_url_object)

lemma keys_load_items:
  "NotAnObject \<notin> set js \<Longrightarrow>
   fst ` set (load_items L existing_map js) =
     fst ` set existing_map \<union> {normalize_url L u |u t i. Item (Some u) t i \<in> set js \<and> u \<noteq> []}"
proof (induction L existing_map js rule: load_items.induct)
  case (1 L existing_map)
  then show ?case by simp
next
  case (2 L existing_map items)
  then show ?case by simp
next
  case (3 L existing_map k t i items)
  show ?case
  proof (cases "truthy k")
    case True
    then obtain s where k: "k = Some s" "s \<noteq> []"
      by (cases k) (auto simp: truthy_def)
    with 3 True show ?thesis
      by (auto simp: keys_dict_set)
  next
    case False
    then have "k = None \<or> k = Some []"
      by (cases k) (auto simp: truthy_def)
    with 3 False show ?thesis by auto
  qed
qed

lemma keys_merge:
  "fst ` set (merge existing_map results) = fst ` set existing_map \<union> (url ` set results - {[]})"
  by (simp add: merge_def keys_overlay keys_start_with_existing)

lemma url_payload: "url ` set (payload mapping) = fst ` set mapping"
  by (force simp: payload_def)


lemma or_none_or_none: "or_none (or_none x) = or_none x"
  by (simp add: or_none_def truthy_def)

lemma load_items_entries:
  "(k, m) \<in> set (load_items L existing_map js) \<Longrightarrow>
   (k, m) \<in> set existing_map
   \<or> (\<exists>v t i. Item (Some v) t i \<in> set js \<and> v \<noteq> [] \<and> k = normalize_url L v
         \<and> m = \<lparr>title = or_none t, img = or_none i\<rparr>)"
proof (induction L existing_map js rule: load_items.induct)
  case (1 L existing_map)
  then show ?case by simp
next
  case (2 L existing_map items)
  then show ?case by simp
next
  case (3 L existing_map u t i items)
  show ?case
  proof (cases "truthy u")
    case True
    then obtain s where s: "u = Some s" "s \<noteq> []"
      by (cases u) (auto simp: truthy_def)
    from 3 True s have "(k, m) \<in> set (dict_set existing_map (normalize_url L s)
            \<lparr>title = or_none t, img = or_none i\<rparr>)
        \<or> (\<exists>v t i. Item (Some v) t i \<in> set items \<and> v \<noteq> [] \<and> k = normalize_url L v
              \<and> m = \<lparr>title = or_none t, img = or_none i\<rparr>)"
      by simp
    then show ?thesis
    proof
      assume "(k, m) \<in> set (dict_set existing_map (normalize_url L s)
            \<lparr>title = or_none t, img = or_none i\<rparr>)"
      with set_dict_set [of existing_map "normalize_url L s" "\<lparr>title = or_none t, img = or_none i\<rparr>"]
      have "(k, m) = (normalize_url L s, \<lparr>title = or_none t, img = or_none i\<rparr>)
            \<or> (k, m) \<in> set existing_map"
        by blast
      with s show ?thesis by auto
    next
      assume "\<exists>v t i. Item (Some v) t i \<in> set items \<and> v \<noteq> [] \<and> k = normalize_url L v
              \<and> m = \<lparr>title = or_none t, img = or_none i\<rparr>"
      then show ?thesis by auto
    qed
  next
    case False
    with 3 show ?thesis by auto
  qed
qed

lemma load_url_object_entries:
  "(k, m) \<in> set (load_url_object L existing_map kvs) \<Longrightarrow>
   (k, m) \<in> set existing_map
   \<or> (\<exists>v jm. (v, jm) \<in> set kvs \<and> k = normalize_url L v
         \<and> (case jm of Meta t i \<Rightarrow> m = \<lparr>title = t, img = i\<rparr>
             | _ \<Rightarrow> m = \<lparr>title = None, img = None\<rparr>))"
proof (induction L existing_map kvs rule: load_url_object.induct)
  case (1 L existing_map)
  then show ?case by simp
next
  case (2 L existing_map u rest)
  then show ?case by simp
next
  case (3 L existing_map u rest)
  from 3 have "(k, m) \<in> set (dict_set existing_map (normalize_url L u) \<lparr>title = None, img = None\<rparr>)
      \<or> (\<exists>v jm. (v, jm) \<in> set rest \<and> k = normalize_url L v
         \<and> (case jm of Meta t i \<Rightarrow> m = \<lparr>title = t, img = i\<rparr>
             | _ \<Rightarrow> m = \<lparr>title = None, img = None\<rparr>))"
    by simp
  then show ?case
  proof
    assume "(k, m) \<in> set (dict_set existing_map (normalize_url L u) \<lparr>title = None, img = None\<rparr>)"
    with set_dict_set [of existing_map "normalize_url L u" "\<lparr>title = None, img = None\<rparr>"]
    have "(k, m) = (normalize_url L u, \<lparr>title = None, img = None\<rparr>) \<or> (k, m) \<in> set existing_map"
      by blast
    then show ?thesis
    proof
      assume "(k, m) = (normalize_url L u, \<lparr>title = None, img = None\<rparr>)"
      then have "(u, FalsyMeta) \<in> set ((u, FalsyMeta) # rest) \<and> k = normalize_url L u
         \<and> (case FalsyMeta of Meta t i \<Rightarrow> m = \<lparr>title = t, img = i\<rparr>
             | _ \<Rightarrow> m = \<lparr>title = None, img = None\<rparr>)"
        by simp
      then show ?thesis by blast
    qed simp
  next
    assume "\<exists>v jm. (v, jm) \<in> set rest \<and> k = normalize_url L v
         \<and> (case jm of Meta t i \<Rightarrow> m = \<lparr>title = t, img = i\<rparr>
             | _ \<Rightarrow> m = \<lparr>title = None, img = None\<rparr>)"
    then show ?thesis by auto
  qed
next
  case (4 L existing_map u t i rest)
  from 4 have "(k, m) \<in> set (dict_set existing_map (normalize_url L u) \<lparr>title = t, img = i\<rparr>)
      \<or> (\<exists>v jm. (v, jm) \<in> set rest \<and> k = normalize_url L v
         \<and> (case jm of Meta t i \<Rightarrow> m = \<lparr>title = t, img = i\<rparr>
             | _ \<Rightarrow> m = \<lparr>title = None, img = None\<rparr>))"
    by simp
  then show ?case
  proof
    assume "(k, m) \<in> set (dict_set existing_map (normalize_url L u) \<lparr>title = t, img = i\<rparr>)"
    with set_dict_set [of existing_map "normalize_url L u" "\<lparr>title = t, img = i\<rparr>"]
    have "(k, m) = (normalize_url L u, \<lparr>title = t, img = i\<rparr>) \<or> (k, m) \<in> set existing_map"
      by blast
    then show ?thesis
    proof
      assume "(k, m) = (normalize_url L u, \<lparr>title = t, img = i\<rparr>)"
      then have "(u, Meta t i) \<in> set ((u, Meta t i) # rest) \<and> k = normalize_url L u
         \<and> (case Meta t i of Meta t i \<Rightarrow> m = \<lparr>title = t, img = i\<rparr>
             | _ \<Rightarrow> m = \<lparr>title = None, img = None\<rparr>)"
        by simp
      then show ?thesis by blast
    qed simp
  next
    assume "\<exists>v jm. (v, jm) \<in> set rest \<and> k = normalize_url L v
         \<and> (case jm of Meta t i \<Rightarrow> m = \<lparr>title = t, img = i\<rparr>
             | _ \<Rightarrow> m = \<lparr>title = None, img = None\<rparr>)"
    then show ?thesis by auto
  qed
qed

lemma keys_load_url_object:
  "\<forall>k. (k, NotAMapping) \<notin> set kvs \<Longrightarrow>
   fst ` set (load_url_object L existing_map kvs)
     = fst ` set existing_map \<union> normalize_url L ` fst ` set kvs"
proof (induction L existing_map kvs rule: load_url_object.induct)
  case (1 L existing_map)
  then show ?case by simp
next
  case (2 L existing_map u rest)
  then show ?case by auto
next
  case (3 L existing_map u rest)
  then have "\<forall>k. (k, NotAMapping) \<notin> set rest" by auto
  with 3 show ?case by (simp add: keys_dict_set)
next
  case (4 L existing_map u t i rest)
  then have "\<forall>k. (k, NotAMapping) \<notin> set rest" by auto
  with 4 show ?case by (simp add: keys_dict_set)
qed

text \<open>In resume mode an entry of the loaded mapping is in the file that is written, with
  its metadata or with that of a fetch result of this run.\<close>

lemma loaded_entry_written:
  assumes "\<not> overwrite a" and "output_file W = Some existing" and "main L a W = Wrote items"
    and mem: "(u, m) \<in> set (load_existing L existing)"
  shows "\<exists>it \<in> set items. url it = u \<and>
            ((title it = or_none (title m) \<and> img it = or_none (img m))
             \<or> (\<exists>r \<in> set (main_results L a W).
                   url r = u \<and> title it = or_none (title r) \<and> img it = or_none (img r)))"
proof -
  from assms have em: "main_existing_map L a W = load_existing L existing"
    by (simp add: main_existing_map_def)
  from assms have items: "items = payload (merge (load_existing L existing) (main_results L a W))"
    by (auto simp: main_def em split: if_splits option.splits)
  from mem have "u \<in> fst ` set (merge (load_existing L existing) (main_results L a W))"
    by (force simp: keys_merge)
  then obtain d where d: "(u, d) \<in> set (merge (load_existing L existing) (main_results L a W))"
    by auto
  then have it: "\<lparr>title = title d, img = img d, url = u\<rparr> \<in> set items"
    by (force simp: items payload_def)
  from merge_values [OF d] show ?thesis
  proof
    assume "\<exists>d'. (u, d') \<in> set (load_existing L existing) \<and> d = title_image_or_none d'"
    then obtain d' where d': "(u, d') \<in> set (load_existing L existing)" "d = title_image_or_none d'"
      by auto
    with mem distinct_load_existing [of L existing] have "d' = m"
      by (meson eq_key_imp_eq_value)
    with d' it show ?thesis
      by (intro bexI [of _ "\<lparr>title = title d, img = img d, url = u\<rparr>"])
         (simp_all add: title_image_or_none_def)
  next
    assume "\<exists>r \<in> set (main_results L a W). url r = u \<and> d = title_image_or_none r"
    with it show ?thesis
      by (intro bexI [of _ "\<lparr>title = title d, img = img d, url = u\<rparr>"])
         (auto simp: title_image_or_none_def)
  qed
qed

text \<open>
  Claim C8, as the code has it. In resume mode, for an earlier file that is read without an
  exception (the elements of its items list, or of the list it is, are all objects; the
  values of a legacy mapping are objects or falsy), every entry of the file with a non-empty
  URL (every key, for the legacy mapping) is in the file that is written, under its
  normalized URL, with the metadata of a stored entry that has the same normalized URL or
  with the metadata of a fetch result of this run for that URL (an empty string stored as
  null). In overwrite mode the earlier file is not read: the file that is written holds the
  URLs fetched in this run and no other.
\<close>

theorem resume_keeps_entries:
  "(\<not> overwrite a \<and> output_file W = Some existing \<and> main L a W = Wrote items
      \<and> (existing = ItemsObject js \<or> existing = ItemList js) \<and> NotAnObject \<notin> set js
      \<and> Item (Some v) t i \<in> set js \<and> v \<noteq> []
     \<longrightarrow> (\<exists>it \<in> set items. url it = normalize_url L v \<and>
            ((\<exists>v' t' i'. Item (Some v') t' i' \<in> set js
                 \<and> normalize_url L v' = normalize_url L v
                 \<and> title it = or_none t' \<and> img it = or_none i')
             \<or> (\<exists>r \<in> set (main_results L a W).
                   url r = normalize_url L v
                   \<and> title it = or_none (title r) \<and> img it = or_none (img r)))))
   \<and> (\<not> overwrite a \<and> output_file W = Some (UrlObject kvs) \<and> main L a W = Wrote items
      \<and> (\<forall>k. (k, NotAMapping) \<notin> set kvs) \<and> (v, jm) \<in> set kvs
     \<longrightarrow> (\<exists>it \<in> set items. url it = normalize_url L v \<and>
            ((\<exists>v' jm'. (v', jm') \<in> set kvs \<and> normalize_url L v' = normalize_url L v
                 \<and> (case jm' of
                       Meta t' i' \<Rightarrow> title it = or_none t' \<and> img it = or_none i'
                     | _ \<Rightarrow> title it = None \<and> img it = None))
             \<or> (\<exists>r \<in> set (main_results L a W).
                   url r = normalize_url L v
                   \<and> title it = or_none (title r) \<and> img it = or_none (img r)))))
   \<and> (overwrite a \<and> main L a W = Wrote items
     \<longrightarrow> url ` set items = url ` set (main_results L a W) - {[]})"
proof (intro conjI impI)
  assume h: "\<not> overwrite a \<and> output_file W = Some existing \<and> main L a W = Wrote items
      \<and> (existing = ItemsObject js \<or> existing = ItemList js) \<and> NotAnObject \<notin> set js
      \<and> Item (Some v) t i \<in> set js \<and> v \<noteq> []"
  then have le: "load_existing L existing = load_items L [] js"
    by (auto simp: load_existing_def)
  from h have "normalize_url L v \<in> fst ` set (load_items L [] js)"
    by (subst keys_load_items) auto
  then obtain m where m: "(normalize_url L v, m) \<in> set (load_items L [] js)"
    by auto
  from load_items_entries [OF m] obtain v' t' i' where
    p: "Item (Some v') t' i' \<in> set js" "normalize_url L v = normalize_url L v'"
       "m = \<lparr>title = or_none t', img = or_none i'\<rparr>"
    by auto
  from h m have "\<exists>it \<in> set items. url it = normalize_url L v \<and>
            ((title it = or_none (title m) \<and> img it = or_none (img m))
             \<or> (\<exists>r \<in> set (main_results L a W).
                   url r = normalize_url L v
                   \<and> title it = or_none (title r) \<and> img it = or_none (img r)))"
    by (intro loaded_entry_written [of a W existing]) (simp_all add: le)
  then obtain it where it: "it \<in> set items" "url it = normalize_url L v"
      "(title it = or_none (title m) \<and> img it = or_none (img m))
       \<or> (\<exists>r \<in> set (main_results L a W).
             url r = normalize_url L v
             \<and> title it = or_none (title r) \<and> img it = or_none (img r))"
    by blast
  from it(3) have "(\<exists>v' t' i'. Item (Some v') t' i' \<in> set js
                 \<and> normalize_url L v' = normalize_url L v
                 \<and> title it = or_none t' \<and> img it = or_none i')
             \<or> (\<exists>r \<in> set (main_results L a W).
                   url r = normalize_url L v
                   \<and> title it = or_none (title r) \<and> img it = or_none (img r))"
  proof
    assume "title it = or_none (title m) \<and> img it = or_none (img m)"
    with p have "Item (Some v') t' i' \<in> set js \<and> normalize_url L v' = normalize_url L v
                 \<and> title it = or_none t' \<and> img it = or_none i'"
      by (simp add: or_none_or_none)
    then show ?thesis by blast
  qed simp
  with it(1,2) show "\<exists>it \<in> set items. url it = normalize_url L v \<and>
            ((\<exists>v' t' i'. Item (Some v') t' i' \<in> set js
                 \<and> normalize_url L v' = normalize_url L v
                 \<and> title it = or_none t' \<and> img it = or_none i')
             \<or> (\<exists>r \<in> set (main_results L a W).
                   url r = normalize_url L v
                   \<and> title it = or_none (title r) \<and> img it = or_none (img r)))"
    by blast
next
  assume h: "\<not> overwrite a \<and> output_file W = Some (UrlObject kvs) \<and> main L a W = Wrote items
      \<and> (\<forall>k. (k, NotAMapping) \<notin> set kvs) \<and> (v, jm) \<in> set kvs"
  have le: "load_existing L (UrlObject kvs) = load_url_object L [] kvs"
    by (simp add: load_existing_def)
  from h have "normalize_url L v \<in> fst ` set (load_url_object L [] kvs)"
    by (subst keys_load_url_object) force+
  then obtain m where m: "(normalize_url L v, m) \<in> set (load_url_object L [] kvs)"
    by auto
  from load_url_object_entries [OF m] obtain v' jm' where
    p: "(v', jm') \<in> set kvs" "normalize_url L v = normalize_url L v'"
       "case jm' of Meta t i \<Rightarrow> m = \<lparr>title = t, img = i\<rparr>
        | _ \<Rightarrow> m = \<lparr>title = None, img = None\<rparr>"
    by auto
  from h m have "\<exists>it \<in> set items. url it = normalize_url L v \<and>
            ((title it = or_none (title m) \<and> img it = or_none (img m))
             \<or> (\<exists>r \<in> set (main_results L a W).
                   url r = normalize_url L v
                   \<and> title it = or_none (title r) \<and> img it = or_none (img r)))"
    by (intro loaded_entry_written [of a W "UrlObject kvs"]) (simp_all add: le)
  then obtain it where it: "it \<in> set items" "url it = normalize_url L v"
      "(title it = or_none (title m) \<and> img it = or_none (img m))
       \<or> (\<exists>r \<in> set (main_results L a W).
             url r = normalize_url L v
             \<and> title it = or_none (title r) \<and> img it = or_none (img r))"
    by blast
  from it(3) have "(\<exists>v' jm'. (v', jm') \<in> set kvs \<and> normalize_url L v' = normalize_url L v
                 \<and> (case jm' of
                       Meta t' i' \<Rightarrow> title it = or_none t' \<and> img it = or_none i'
                     | _ \<Rightarrow> title it = None \<and> img it = None))
             \<or> (\<exists>r \<in> set (main_results L a W).
                   url r = normalize_url L v
                   \<and> title it = or_none (title r) \<and> img it = or_none (img r))"
  proof
    assume "title it = or_none (title m) \<and> img it = or_none (img m)"
    with p have "(v', jm') \<in> set kvs \<and> normalize_url L v' = normalize_url L v
                 \<and> (case jm' of
                       Meta t' i' \<Rightarrow> title it = or_none t' \<and> img it = or_none i'
                     | _ \<Rightarrow> title it = None \<and> img it = None)"
      by (cases jm') (simp_all add: or_none_def truthy_def)
    then show ?thesis by blast
  qed simp
  with it(1,2) show "\<exists>it \<in> set items. url it = normalize_url L v \<and>
            ((\<exists>v' jm'. (v', jm') \<in> set kvs \<and> normalize_url L v' = normalize_url L v
                 \<and> (case jm' of
                       Meta t' i' \<Rightarrow> title it = or_none t' \<and> img it = or_none i'
                     | _ \<Rightarrow> title it = None \<and> img it = None))
             \<or> (\<exists>r \<in> set (main_results L a W).
                   url r = normalize_url L v
                   \<and> title it = or_none (title r) \<and> img it = or_none (img r)))"
    by blast
next
  assume h: "overwrite a \<and> main L a W = Wrote items"
  then have "items = payload (merge [] (main_results L a W))"
    by (auto simp: main_def main_existing_map_def split: if_splits option.splits)
  then show "url ` set items = url ` set (main_results L a W) - {[]}"
    by (simp add: url_payload keys_merge)
qed

theorem resume_keeps_entries_witness:
  "main ascii_lib \<lparr>source = Auto, max_workers = 16, limit = 0, overwrite = False\<rparr>
     \<lparr>weekly = [''https://x.com/new''], dashboard = Some [],
      output_file = Some (ItemsObject [Item (Some ''https://x.com/old/'') (Some ''Old'') None]),
      http_get = Map.empty, as_completed = id, write_ok = True\<rparr>
     = Wrote [\<lparr>title = Some ''Old'', img = None, url = ''https://x.com/old''\<rparr>,
              \<lparr>title = None, img = None, url = ''https://x.com/new''\<rparr>]
   \<and> main ascii_lib \<lparr>source = Auto, max_workers = 16, limit = 0, overwrite = False\<rparr>
     \<lparr>weekly = [''https://x.com/new''], dashboard = Some [],
      output_file = Some (UrlObject [(''https://x.com/old/'', Meta (Some ''Old'') None)]),
      http_get = Map.empty, as_completed = id, write_ok = True\<rparr>
     = Wrote [\<lparr>title = Some ''Old'', img = None, url = ''https://x.com/old''\<rparr>,
              \<lparr>title = None, img = None, url = ''https://x.com/new''\<rparr>]
   \<and> normalize_url ascii_lib ''https://x.com/old/'' = ''https://x.com/old''
   \<and> (\<exists>it \<in> set [\<lparr>title = Some ''Old'', img = None, url = ''https://x.com/old''\<rparr>,
                    \<lparr>title = None, img = None, url = ''https://x.com/new''\<rparr>].
         url it = ''https://x.com/old'')"
proof -
  have run: "main ascii_lib \<lparr>source = Auto, max_workers = 16, limit = 0, overwrite = False\<rparr>
     \<lparr>weekly = [''https://x.com/new''], dashboard = Some [],
      output_file = Some (ItemsObject [Item (Some ''https://x.com/old/'') (Some ''Old'') None]),
      http_get = Map.empty, as_completed = id, write_ok = True\<rparr>
     = Wrote [\<lparr>title = Some ''Old'', img = None, url = ''https://x.com/old''\<rparr>,
              \<lparr>title = None, img = None, url = ''https://x.com/new''\<rparr>]"
    by code_simp
  have run2: "main ascii_lib \<lparr>source = Auto, max_workers = 16, limit = 0, overwrite = False\<rparr>
     \<lparr>weekly = [''https://x.com/new''], dashboard = Some [],
      output_file = Some (UrlObject [(''https://x.com/old/'', Meta (Some ''Old'') None)]),
      http_get = Map.empty, as_completed = id, write_ok = True\<rparr>
     = Wrote [\<lparr>title = Some ''Old'', img = None, url = ''https://x.com/old''\<rparr>,
              \<lparr>title = None, img = None, url = ''https://x.com/new''\<rparr>]"
    by code_simp
  have n: "normalize_url ascii_lib ''https://x.com/old/'' = ''https://x.com/old''"
    by code_simp
  note items_shape = resume_keeps_entries
    [where L = ascii_lib
       and a = "\<lparr>source = Auto, max_workers = 16, limit = 0, overwrite = False\<rparr>"
       and W = "\<lparr>weekly = [''https://x.com/new''], dashboard = Some [],
      output_file = Some (ItemsObject [Item (Some ''https://x.com/old/'') (Some ''Old'') None]),
      http_get = Map.empty, as_completed = id, write_ok = True\<rparr>"
       and items = "[\<lparr>title = Some ''Old'', img = None, url = ''https://x.com/old''\<rparr>,
              \<lparr>title = None, img = None, url = ''https://x.com/new''\<rparr>]"
       and existing = "ItemsObject [Item (Some ''https://x.com/old/'') (Some ''Old'') None]"
       and js = "[Item (Some ''https://x.com/old/'') (Some ''Old'') None]"
       and kvs = "[]"
       and v = "''https://x.com/old/''" and t = "Some ''Old''" and i = None]
  note mapping_shape = resume_keeps_entries
    [where L = ascii_lib
       and a = "\<lparr>source = Auto, max_workers = 16, limit = 0, overwrite = False\<rparr>"
       and W = "\<lparr>weekly = [''https://x.com/new''], dashboard = Some [],
      output_file = Some (UrlObject [(''https://x.com/old/'', Meta (Some ''Old'') None)]),
      http_get = Map.empty, as_completed = id, write_ok = True\<rparr>"
       and items = "[\<lparr>title = Some ''Old'', img = None, url = ''https://x.com/old''\<rparr>,
              \<lparr>title = None, img = None, url = ''https://x.com/new''\<rparr>]"
       and existing = "UrlObject [(''https://x.com/old/'', Meta (Some ''Old'') None)]"
       and js = "[]"
       and kvs = "[(''https://x.com/old/'', Meta (Some ''Old'') None)]"
       and v = "''https://x.com/old/''" and jm = "Meta (Some ''Old'') None"]
  from run run2 n items_shape mapping_shape show ?thesis by simp
qed

text \<open>
  The claim as the specification states it fails. In overwrite mode the file of the earlier
  run is not read, so an entry whose URL is not fetched in this run is absent from the file
  that is written: the earlier file holds \<^verbatim>\<open>https://x.com/old\<close> and the run discovers
  \<^verbatim>\<open>https://x.com/new\<close> only. In resume mode two stored entries with the same normalized
  URL become one (the title \<^verbatim>\<open>First\<close> and the URL with the slash are not written), and the
  entries that follow an element that is no object are dropped.
\<close>

theorem overwrite_drops_entries_counterexample:
  "main ascii_lib \<lparr>source = Auto, max_workers = 16, limit = 0, overwrite = True\<rparr>
     \<lparr>weekly = [''https://x.com/new''], dashboard = Some [],
      output_file = Some (ItemsObject [Item (Some ''https://x.com/old'') (Some ''Old'') None]),
      http_get = Map.empty, as_completed = id, write_ok = True\<rparr>
   = Wrote [\<lparr>title = None, img = None, url = ''https://x.com/new''\<rparr>]
   \<and> main ascii_lib \<lparr>source = Auto, max_workers = 16, limit = 0, overwrite = False\<rparr>
     \<lparr>weekly = [''https://x.com/new''], dashboard = Some [],
      output_file = Some (ItemsObject [Item (Some ''https://x.com/old/'') (Some ''First'') None,
                                       Item (Some ''https://x.com/old'') (Some ''Second'') None]),
      http_get = Map.empty, as_completed = id, write_ok = True\<rparr>
   = Wrote [\<lparr>title = Some ''Second'', img = None, url = ''https://x.com/old''\<rparr>,
            \<lparr>title = None, img = None, url = ''https://x.com/new''\<rparr>]
   \<and> main ascii_lib \<lparr>source = Auto, max_workers = 16, limit = 0, overwrite = False\<rparr>
     \<lparr>weekly = [''https://x.com/new''], dashboard = Some [],
      output_file = Some (ItemsObject [NotAnObject,
                                       Item (Some ''https://x.com/old'') (Some ''Old'') None]),
      http_get = Map.empty, as_completed = id, write_ok = True\<rparr>
   = Wrote [\<lparr>title = None, img = None, url = ''https://x.com/new''\<rparr>]"
  by code_simp

section \<open>Exit status\<close>
















section \<open>The extractor\<close>

lemma scan_done:
  "truthy t \<Longrightarrow> truthy i \<Longrightarrow> scan_tags_to_completion L b (t, i) tags = Some (t, i)"
  by (induction tags) (simp_all add: Let_def)

lemma scan_tags_eq:
  "scan_tags L b st tags = scan_tags_to_completion L b st tags"
proof (induction tags arbitrary: st)
  case Nil
  show ?case by (cases st) simp
next
  case (Cons tag tags)
  obtain t i where st: "st = (t, i)" by (cases st)
  show ?case
    unfolding st
    by (simp add: Let_def Cons scan_done split: option.splits)
qed

text \<open>
  Claim C6. For every input and base URL, \<^verbatim>\<open>extract_og_from_html\<close> with its early exit
  returns what the same extraction returns when every meta tag is scanned: the same pair of
  title and image, and an exception of \<^verbatim>\<open>urljoin\<close> in the one exactly when in the other.
\<close>

theorem early_exit_equivalence:
  "extract_og_from_html L html base_url = extract_og_without_early_exit L html base_url"
  by (simp add: extract_og_from_html_def extract_og_without_early_exit_def scan_tags_eq)

theorem early_exit_equivalence_witness:
  "extract_og_from_html ascii_lib
     ''<meta property='og:title' content='O'><meta property='og:image' content='https://x.com/i.png'><meta name='twitter:title' content='T'>''
     ''https://x.com/p'' = Some (Some ''O'', Some ''https://x.com/i.png'')
   \<and> extract_og_without_early_exit ascii_lib
     ''<meta property='og:title' content='O'><meta property='og:image' content='https://x.com/i.png'><meta name='twitter:title' content='T'>''
     ''https://x.com/p'' = Some (Some ''O'', Some ''https://x.com/i.png'')"
proof -
  have run: "extract_og_from_html ascii_lib
     ''<meta property='og:title' content='O'><meta property='og:image' content='https://x.com/i.png'><meta name='twitter:title' content='T'>''
     ''https://x.com/p'' = Some (Some ''O'', Some ''https://x.com/i.png'')"
    by code_simp
  from run early_exit_equivalence [of ascii_lib
     "''<meta property='og:title' content='O'><meta property='og:image' content='https://x.com/i.png'><meta name='twitter:title' content='T'>''"
     "''https://x.com/p''"]
  show ?thesis by simp
qed

lemma strip_Nil: "strip [] = []"
  by (simp add: strip_def rstrip_def lstrip_def)

lemma strip_strip: "strip (strip s) = strip s"
proof -
  define y where "y = dropWhile is_space s"
  define z where "z = dropWhile is_space (rev y)"
  have s: "strip s = rev z"
    by (simp add: strip_def rstrip_def lstrip_def y_def z_def)
  show ?thesis
  proof (cases "z = []")
    case True
    with s have "strip s = []" by simp
    then show ?thesis by (simp only: strip_Nil)
  next
    case False
    then have hz: "\<not> is_space (hd z)"
      unfolding z_def by (rule hd_dropWhile)
    from False have ny: "y \<noteq> []" by (auto simp: z_def)
    then have hy: "\<not> is_space (hd y)"
      unfolding y_def by (rule hd_dropWhile)
    have "takeWhile is_space (rev y) @ z = rev y"
      unfolding z_def by (rule takeWhile_dropWhile_id)
    then have "rev (takeWhile is_space (rev y) @ z) = y"
      by simp
    then have "rev z @ rev (takeWhile is_space (rev y)) = y"
      by simp
    then have "hd (rev z @ rev (takeWhile is_space (rev y))) = hd y"
      by simp
    moreover from False have "rev z \<noteq> []" by simp
    ultimately have "hd (rev z) = hd y"
      by simp
    with hy have a: "dropWhile is_space (rev z) = rev z"
      by (simp add: dropWhile_eq_self_iff)
    from hz have b: "dropWhile is_space z = z"
      by (simp add: dropWhile_eq_self_iff)
    show ?thesis
      unfolding s by (simp add: strip_def rstrip_def lstrip_def a b)
  qed
qed

lemma attrs_values_stripped:
  "list_all (\<lambda>kv. strip (snd kv) = snd kv) acc \<Longrightarrow>
   list_all (\<lambda>kv. strip (snd kv) = snd kv)
     (foldl (\<lambda>attrs (g1, g3). dict_set attrs (lower (strip g1)) (strip g3)) acc ms)"
proof (induction ms arbitrary: acc)
  case Nil
  then show ?case by simp
next
  case (Cons m ms)
  obtain g1 g3 where m: "m = (g1, g3)" by (cases m)
  have "set (dict_set acc (lower (strip g1)) (strip g3))
          \<subseteq> insert (lower (strip g1), strip g3) (set acc)"
    by (rule set_dict_set)
  with Cons.prems have "list_all (\<lambda>kv. strip (snd kv) = snd kv)
     (dict_set acc (lower (strip g1)) (strip g3))"
    unfolding list_all_iff by (auto simp: strip_strip)
  from Cons.IH [OF this] show ?case by (simp add: m)
qed

lemma tag_content_stripped: "strip (tag_content tag) = tag_content tag"
proof -
  have all: "list_all (\<lambda>kv. strip (snd kv) = snd kv) (parse_meta_attrs tag)"
    unfolding parse_meta_attrs_def by (rule attrs_values_stripped) simp
  have v: "strip v = v" if "dict_get (parse_meta_attrs tag) k = Some v" for k v
  proof -
    from that have "(k, v) \<in> set (parse_meta_attrs tag)"
      by (simp add: dict_get_def map_of_SomeD)
    with all show ?thesis
      unfolding list_all_iff by force
  qed
  show ?thesis
  proof (cases "truthy (dict_get (parse_meta_attrs tag) ''content'')")
    case True
    then obtain c where "dict_get (parse_meta_attrs tag) ''content'' = Some c"
      by (cases "dict_get (parse_meta_attrs tag) ''content''") (auto simp: truthy_def)
    with True v [of "''content''" c] show ?thesis
      by (simp add: tag_content_def or_else_def)
  next
    case False
    note nc = this
    show ?thesis
    proof (cases "truthy (dict_get (parse_meta_attrs tag) ''value'')")
      case True
      then obtain c where "dict_get (parse_meta_attrs tag) ''value'' = Some c"
        by (cases "dict_get (parse_meta_attrs tag) ''value''") (auto simp: truthy_def)
      with True nc v [of "''value''" c] show ?thesis
        by (simp add: tag_content_def or_else_def)
    next
      case False
      with nc show ?thesis
        by (simp add: tag_content_def or_else_def strip_Nil)
    qed
  qed
qed

lemma scan_title_kept:
  "truthy t \<Longrightarrow> scan_tags L b (t, i) tags = Some (t', i') \<Longrightarrow> t' = t"
proof (induction tags arbitrary: i)
  case Nil
  then show ?case by simp
next
  case (Cons tag tags)
  then show ?case
    by (auto simp: Let_def split: if_splits option.splits)
qed

lemma scan_prefix:
  "list_all (\<lambda>p. \<not> (tag_content p \<noteq> [] \<and> tag_prop p \<in> set title_props)) pre \<Longrightarrow>
   scan_tags L b (None, i) (pre @ rest) = Some r \<Longrightarrow>
   \<exists>i'. scan_tags L b (None, i') rest = Some r"
proof (induction pre arbitrary: i)
  case Nil
  then show ?case by auto
next
  case (Cons p pre)
  then show ?case
    by (auto simp: Let_def truthy_def split: if_splits option.splits)
qed

lemma scan_candidate:
  assumes "tag_content tag \<noteq> []" and "tag_prop tag \<in> set title_props"
    and "scan_tags L b (None, i) (tag # post) = Some (t, i')"
  shows "t = Some (tag_content tag)"
proof -
  have tr: "truthy (Some (tag_content tag))"
    using assms(1) by (simp add: truthy_def)
  from assms show ?thesis
    using scan_title_kept [OF tr]
    by (auto simp: Let_def tag_content_stripped truthy_def split: if_splits option.splits)
qed

lemma scan_tags_returns:
  assumes "\<forall>b u. urljoin L b u \<noteq> None"
  shows "scan_tags L base_url st tags \<noteq> None"
proof (induction tags arbitrary: st)
  case Nil
  then show ?case by (cases st) simp
next
  case (Cons tag tags)
  obtain t i where st: "st = (t, i)" by (cases st)
  from assms have "urljoin L base_url (strip (tag_content tag)) \<noteq> None" by blast
  then obtain j where j: "urljoin L base_url (strip (tag_content tag)) = Some j" by blast
  show ?case
    unfolding st using Cons.IH by (simp add: Let_def j)
qed

text \<open>
  Claim C1, as the code has it. There is no priority of \<^verbatim>\<open>og:title\<close> over
  \<^verbatim>\<open>twitter:title\<close>. The tags are the matches of \<^verbatim>\<open>RE_META_TAG\<close> in the decoded document, in
  the order of the document; the property of a tag is its attribute \<^verbatim>\<open>property\<close>, else
  \<^verbatim>\<open>name\<close>, in lower case, and its content is its attribute \<^verbatim>\<open>content\<close>, else \<^verbatim>\<open>value\<close>,
  both as \<^verbatim>\<open>RE_ATTR\<close> reads them (\<open>tag_prop\<close>, \<open>tag_content\<close>). The extraction returns when
  \<^verbatim>\<open>urljoin\<close> raises on no argument, and whenever it returns, the title comes from the first of these tags
  whose property is \<^verbatim>\<open>og:title\<close> or \<^verbatim>\<open>twitter:title\<close> and whose content is not empty,
  whichever of the two it is: the title is the content of that tag, unescaped and stripped
  (provided this is not empty; the title element is the fallback otherwise). So the
  \<^verbatim>\<open>og:title\<close> value is returned when such an \<^verbatim>\<open>og:title\<close> tag comes before every such
  \<^verbatim>\<open>twitter:title\<close> tag, and the \<^verbatim>\<open>twitter:title\<close> value when the order is the other one.
\<close>

theorem title_first_in_document_order:
  "(re_meta_findall (decode_utf8_replace L html) = pre @ tag # post
   \<and> list_all (\<lambda>p. \<not> (tag_content p \<noteq> [] \<and> tag_prop p \<in> set title_props)) pre
   \<and> tag_content tag \<noteq> [] \<and> tag_prop tag \<in> set title_props
   \<and> extract_og_from_html L html base_url = Some (t, i)
   \<and> strip (unescape L (tag_content tag)) \<noteq> []
   \<longrightarrow> t = Some (strip (unescape L (tag_content tag))))
   \<and> ((\<forall>b u. urljoin L b u \<noteq> None) \<longrightarrow> extract_og_from_html L html base_url \<noteq> None)"
proof (intro conjI impI)
  assume "\<forall>b u. urljoin L b u \<noteq> None"
  then have "scan_tags L base_url (None, None) (re_meta_findall (decode_utf8_replace L html)) \<noteq> None"
    by (rule scan_tags_returns)
  then obtain r where
    "scan_tags L base_url (None, None) (re_meta_findall (decode_utf8_replace L html)) = Some r"
    by blast
  then show "extract_og_from_html L html base_url \<noteq> None"
    by (cases r) (simp add: extract_og_from_html_def Let_def)
next
  assume h: "re_meta_findall (decode_utf8_replace L html) = pre @ tag # post
   \<and> list_all (\<lambda>p. \<not> (tag_content p \<noteq> [] \<and> tag_prop p \<in> set title_props)) pre
   \<and> tag_content tag \<noteq> [] \<and> tag_prop tag \<in> set title_props
   \<and> extract_og_from_html L html base_url = Some (t, i)
   \<and> strip (unescape L (tag_content tag)) \<noteq> []"
  then obtain t0 where
    sc: "scan_tags L base_url (None, None) (pre @ tag # post) = Some (t0, i)" and
    ft: "t = finish_title L (decode_utf8_replace L html) t0"
    by (auto simp: extract_og_from_html_def Let_def split: option.splits)
  from h scan_prefix [OF _ sc] obtain i' where
    "scan_tags L base_url (None, i') (tag # post) = Some (t0, i)"
    by blast
  with h have "t0 = Some (tag_content tag)"
    using scan_candidate by blast
  with h ft show "t = Some (strip (unescape L (tag_content tag)))"
    by (simp add: finish_title_def truthy_def)
qed

theorem title_first_in_document_order_witness:
  "re_meta_findall (decode_utf8_replace ascii_lib
       ''<meta name='description' content='D'><meta property='og:title' content='O'><meta name='twitter:title' content='T'>'')
     = [''<meta name='description' content='D'>''] @
       ''<meta property='og:title' content='O'>'' # [''<meta name='twitter:title' content='T'>'']
   \<and> tag_prop ''<meta name='description' content='D'>'' = ''description''
   \<and> tag_prop ''<meta property='og:title' content='O'>'' = ''og:title''
   \<and> tag_content ''<meta property='og:title' content='O'>'' = ''O''
   \<and> extract_og_from_html ascii_lib
       ''<meta name='description' content='D'><meta property='og:title' content='O'><meta name='twitter:title' content='T'>''
       ''https://x.com/p'' = Some (Some ''O'', None)"
proof -
  have tags: "re_meta_findall (decode_utf8_replace ascii_lib
       ''<meta name='description' content='D'><meta property='og:title' content='O'><meta name='twitter:title' content='T'>'')
     = [''<meta name='description' content='D'>''] @
       ''<meta property='og:title' content='O'>'' # [''<meta name='twitter:title' content='T'>'']"
    by code_simp
  have p0: "tag_prop ''<meta name='description' content='D'>'' = ''description''"
    by code_simp
  have p1: "tag_prop ''<meta property='og:title' content='O'>'' = ''og:title''"
    by code_simp
  have c1: "tag_content ''<meta property='og:title' content='O'>'' = ''O''"
    by code_simp
  have run: "extract_og_from_html ascii_lib
       ''<meta name='description' content='D'><meta property='og:title' content='O'><meta name='twitter:title' content='T'>''
       ''https://x.com/p'' = Some (Some ''O'', None)"
    by code_simp
  have u: "strip (unescape ascii_lib ''O'') = ''O''"
    by code_simp
  from tags p0 p1 c1 run u title_first_in_document_order
    [where L = ascii_lib
       and html = "''<meta name='description' content='D'><meta property='og:title' content='O'><meta name='twitter:title' content='T'>''"
       and pre = "[''<meta name='description' content='D'>'']"
       and tag = "''<meta property='og:title' content='O'>''"
       and post = "[''<meta name='twitter:title' content='T'>'']"
       and base_url = "''https://x.com/p''" and t = "Some ''O''" and i = None]
  show ?thesis by simp
qed

text \<open>
  The claim as the specification states it fails: a document with the tag
  \<^verbatim>\<open>twitter:title\<close> (content \<^verbatim>\<open>T\<close>) before the tag \<^verbatim>\<open>og:title\<close> (content \<^verbatim>\<open>O\<close>) has both
  tags with a content that is not empty, and the title returned is \<^verbatim>\<open>T\<close>.
\<close>

theorem title_priority_counterexample:
  "re_meta_findall (decode_utf8_replace ascii_lib
       ''<meta name='twitter:title' content='T'><meta property='og:title' content='O'>'')
     = [''<meta name='twitter:title' content='T'>'', ''<meta property='og:title' content='O'>'']
   \<and> tag_prop ''<meta name='twitter:title' content='T'>'' = ''twitter:title''
   \<and> tag_content ''<meta name='twitter:title' content='T'>'' = ''T''
   \<and> tag_prop ''<meta property='og:title' content='O'>'' = ''og:title''
   \<and> tag_content ''<meta property='og:title' content='O'>'' = ''O''
   \<and> extract_og_from_html ascii_lib
       ''<meta name='twitter:title' content='T'><meta property='og:title' content='O'>''
       ''https://x.com/p'' = Some (Some ''T'', None)"
  by code_simp

section \<open>Idempotence of the URL normalizer\<close>



lemma lower_scheme_char_facts:
  "c \<in> set lower_scheme_chars \<Longrightarrow>
     lower_char c = c \<and> c \<in> set scheme_chars \<and> c \<noteq> CHR '':''
     \<and> c \<notin> set [CHR 0x09, CHR 0x0D, CHR 0x0A]"
  unfolding scheme_chars_def lower_scheme_chars_def ascii_lower_def ascii_upper_def
    lower_char_def latin1_upper_def latin1_lower_def
  by (elim disjE | simp)+

lemma alpha_not_c0: "is_ascii_alpha c \<Longrightarrow> \<not> (of_char c :: nat) \<le> 32"
  unfolding is_ascii_alpha_def ascii_lower_def ascii_upper_def
  by (elim disjE | simp)+


lemma remove_unsafe_id:
  "list_all (\<lambda>c. c \<notin> set [CHR 0x09, CHR 0x0D, CHR 0x0A]) s \<Longrightarrow> remove_unsafe s = s"
  unfolding remove_unsafe_def list_all_iff by (rule filter_True) blast


lemma split_once_absent:
  assumes "d \<notin> set s"
  shows "split_once d s = (s, [])"
proof -
  from assms have "\<forall>x\<in>set s. x \<noteq> d" by auto
  then have t: "takeWhile (\<lambda>x. x \<noteq> d) s = s" and e: "dropWhile (\<lambda>x. x \<noteq> d) s = []"
    by simp_all
  show ?thesis unfolding split_once_def t e by simp
qed






text \<open>\<^verbatim>\<open>urlsplit\<close> on a string that starts with a well-formed scheme in lower case and a
  colon: the scheme is split off and the rest goes through the remaining steps.\<close>

lemma urlsplit_scheme:
  assumes ne: "scheme \<noteq> []" and al: "is_ascii_alpha (hd scheme)"
    and sc: "list_all (\<lambda>c. c \<in> set lower_scheme_chars) scheme"
    and safe: "list_all (\<lambda>c. c \<notin> set [CHR 0x09, CHR 0x0D, CHR 0x0A]) rest"
  shows "urlsplit L (scheme @ CHR '':'' # rest) =
     (let (netloc, url) = (if take 2 rest = ''//'' then splitnetloc rest else ([], rest))
      in if \<not> brackets_ok L netloc then None
         else
           let (url, fragment) = split_once CHR ''#'' url;
               (url, query) = split_once CHR ''?'' url
           in if \<not> checknetloc L netloc then None
              else Some (scheme, netloc, url, query, fragment))"
proof -
  let ?t = "scheme @ CHR '':'' # rest"
  from sc have f: "\<And>c. c \<in> set scheme \<Longrightarrow>
      lower_char c = c \<and> c \<in> set scheme_chars \<and> c \<noteq> CHR '':''
      \<and> c \<notin> set [CHR 0x09, CHR 0x0D, CHR 0x0A]"
    unfolding list_all_iff using lower_scheme_char_facts by blast
  from ne obtain a as where sa: "scheme = a # as" by (cases scheme) auto
  with al have "\<not> (of_char a :: nat) \<le> 32" by (simp add: alpha_not_c0)
  then have l: "lstrip_c0 ?t = ?t" by (simp add: lstrip_c0_def sa)
  have "list_all (\<lambda>c. c \<notin> set [CHR 0x09, CHR 0x0D, CHR 0x0A]) ?t"
    using f safe unfolding list_all_iff by auto
  then have r: "remove_unsafe ?t = ?t" by (rule remove_unsafe_id)
  have "takeWhile (\<lambda>c. c \<noteq> CHR '':'') ?t = scheme @ takeWhile (\<lambda>c. c \<noteq> CHR '':'') (CHR '':'' # rest)"
    by (rule takeWhile_append2) (use f in blast)
  then have t: "takeWhile (\<lambda>c. c \<noteq> CHR '':'') ?t = scheme" by simp
  have lo: "lower scheme = scheme"
    unfolding lower_def by (rule map_idI) (use f in blast)
  have sch: "list_all (\<lambda>c. c \<in> set scheme_chars) scheme"
    unfolding list_all_iff using f by blast
  have h: "hd ?t = hd scheme" using ne by simp
  have d: "drop (Suc (length scheme)) ?t = rest" by simp
  have c: "CHR '':'' \<in> set ?t" by simp
  show ?thesis
    unfolding urlsplit_def l r Let_def t lo h d
    using ne al sch c by simp
qed

lemma splitnetloc_built:
  assumes "list_all (\<lambda>c. c \<notin> set ''/?#'') nl" and "hd P = CHR ''/''" and "P \<noteq> []"
  shows "splitnetloc (''//'' @ nl @ P) = (nl, P)"
proof -
  from assms(2,3) obtain ps where P: "P = CHR ''/'' # ps" by (cases P) auto
  from assms(1) have n: "\<And>x. x \<in> set nl \<Longrightarrow> \<not> x \<in> set ''/?#''"
    unfolding list_all_iff by blast
  have "takeWhile (\<lambda>c. \<not> c \<in> set ''/?#'') (nl @ P) = nl @ takeWhile (\<lambda>c. \<not> c \<in> set ''/?#'') P"
    by (rule takeWhile_append2) (use n in blast)
  moreover have "dropWhile (\<lambda>c. \<not> c \<in> set ''/?#'') (nl @ P) = dropWhile (\<lambda>c. \<not> c \<in> set ''/?#'') P"
    by (rule dropWhile_append2) (use n in blast)
  ultimately show ?thesis
    by (simp add: splitnetloc_def Let_def P)
qed



text \<open>The two shapes of a URL that \<^verbatim>\<open>urlunsplit\<close> assembles from a scheme, a netloc and a
  path, and what \<^verbatim>\<open>urlsplit\<close> reads back from them.\<close>

lemma urlsplit_with_netloc:
  assumes ne: "scheme \<noteq> []" and al: "is_ascii_alpha (hd scheme)"
    and sc: "list_all (\<lambda>c. c \<in> set lower_scheme_chars) scheme"
    and nl: "list_all (\<lambda>c. c \<notin> set ''/?#'' \<and> c \<notin> set [CHR 0x09, CHR 0x0D, CHR 0x0A]) nl"
    and P: "list_all (\<lambda>c. c \<notin> set ''?#'' \<and> c \<notin> set [CHR 0x09, CHR 0x0D, CHR 0x0A]) P"
    and hd: "hd P = CHR ''/''" "P \<noteq> []"
    and ok: "brackets_ok L nl" "checknetloc L nl"
  shows "urlsplit L (scheme @ CHR '':'' # ''//'' @ nl @ P) = Some (scheme, nl, P, [], [])"
proof -
  have safe: "list_all (\<lambda>c. c \<notin> set [CHR 0x09, CHR 0x0D, CHR 0x0A]) (''//'' @ nl @ P)"
    using nl P unfolding list_all_iff by auto
  from nl have nl': "list_all (\<lambda>c. c \<notin> set ''/?#'') nl"
    unfolding list_all_iff by blast
  have "splitnetloc (''//'' @ nl @ P) = (nl, P)"
    by (rule splitnetloc_built [OF nl' hd])
  then have sn: "splitnetloc (CHR ''/'' # CHR ''/'' # nl @ P) = (nl, P)"
    by simp
  from P have "CHR ''#'' \<notin> set P" "CHR ''?'' \<notin> set P"
    unfolding list_all_iff by auto
  then have so: "split_once CHR ''#'' P = (P, [])" "split_once CHR ''?'' P = (P, [])"
    by (simp_all add: split_once_absent)
  have t2: "take 2 (''//'' @ nl @ P) = ''//''" by simp
  show ?thesis
    unfolding urlsplit_scheme [OF ne al sc safe] t2
    by (simp add: sn so ok)
qed



lemma https_scheme:
  "is_ascii_alpha (hd ''https'') \<and> list_all (\<lambda>c. c \<in> set lower_scheme_chars) ''https''"
  by (simp add: is_ascii_alpha_def lower_scheme_chars_def ascii_lower_def)





lemma urlsplit_schemeless: "urlsplit L ''x.com/a'' = Some ([], [], ''x.com/a'', [], [])"
  by (simp add: urlsplit_def lstrip_c0_def remove_unsafe_def Let_def scheme_chars_def
      ascii_lower_def ascii_upper_def is_ascii_alpha_def split_once_def brackets_ok_def
      checknetloc_def)

lemma normalize_url_schemeless: "normalize_url L ''x.com/a'' = ''https:///x.com/a''"
  by (simp add: normalize_url_def urlparse_def urlsplit_schemeless uses_params_def
      urlunparse_def urlunsplit_def uses_netloc_def Let_def)

lemma urlsplit_slash: "urlsplit L ''https://x.com/a/'' = Some (''https'', ''x.com'', ''/a/'', [], [])"
  using urlsplit_with_netloc [of "''https''" "''x.com''" "''/a/''" L] https_scheme
  by (simp add: brackets_ok_def checknetloc_def is_ascii_def)

lemma normalize_url_slash: "normalize_url L ''https://x.com/a/'' = ''https://x.com/a''"
  by (simp add: normalize_url_def urlparse_def urlsplit_slash uses_params_def
      urlunparse_def urlunsplit_def uses_netloc_def Let_def)

lemma urlsplit_plain: "urlsplit L ''https://x.com/a'' = Some (''https'', ''x.com'', ''/a'', [], [])"
  using urlsplit_with_netloc [of "''https''" "''x.com''" "''/a''" L] https_scheme
  by (simp add: brackets_ok_def checknetloc_def is_ascii_def)

lemma normalize_url_plain: "normalize_url L ''https://x.com/a'' = ''https://x.com/a''"
  by (simp add: normalize_url_def urlparse_def urlsplit_plain uses_params_def
      urlunparse_def urlunsplit_def uses_netloc_def Let_def)

text \<open>
  Claim C5. The three inputs do not normalize to the same key: the two with a scheme give
  \<^verbatim>\<open>https://x.com/a\<close>, but for \<^verbatim>\<open>x.com/a\<close> the parser puts the whole string in the path and
  leaves the netloc empty, so that the default scheme is followed by three slashes and the
  host is lost. The values are the same for every behaviour of the library \<open>L\<close>.
\<close>

theorem normalize_url_three_inputs:
  "normalize_url L ''https://x.com/a/'' = ''https://x.com/a''
   \<and> normalize_url L ''https://x.com/a'' = ''https://x.com/a''
   \<and> normalize_url L ''x.com/a'' = ''https:///x.com/a''
   \<and> normalize_url L ''x.com/a'' \<noteq> normalize_url L ''https://x.com/a''"
  by (simp add: normalize_url_schemeless normalize_url_slash normalize_url_plain)

end
